theory Spec2Isabelle
  imports Main
begin

section \<open>Strings\<close>

text \<open>
  JavaScript strings and Node buffers are both modelled as \<^typ>\<open>string\<close>: a list of
  bytes, a string being held in UTF-8. Every character the program inspects (the
  separator, the dot, the nine reserved characters, the letters of the extension) is
  ASCII, and an ASCII byte never occurs inside the UTF-8 encoding of another character,
  so replacing, splitting and comparing act on the bytes exactly as the source acts on
  UTF-16 code units. The two non-ASCII characters of the name template are written out
  as their bytes.
\<close>

definition arrow :: string where
  \<comment> \<open>U+2194 LEFT RIGHT ARROW\<close>
  "arrow = [CHR 0xE2, CHR 0x86, CHR 0x94]"

definition en_dash :: string where
  \<comment> \<open>U+2013 EN DASH\<close>
  "en_dash = [CHR 0xE2, CHR 0x80, CHR 0x93]"

definition reserved :: "char list" where
  \<comment> \<open>the character class of \<^verbatim>\<open>/[\/\\:*?"<>|]/g\<close>\<close>
  "reserved = [CHR ''/'', CHR 0x5C, CHR '':'', CHR ''*'', CHR ''?'', CHR 0x22,
               CHR ''<'', CHR ''>'', CHR ''|'']"

definition replaceReserved :: "string \<Rightarrow> string" where
  \<comment> \<open>\<^verbatim>\<open>s.replace(/[\/\\:*?"<>|]/g, ' ')\<close>\<close>
  "replaceReserved s = map (\<lambda>c. if List.member reserved c then CHR '' '' else c) s"

definition lowerChar :: "char \<Rightarrow> char" where
  "lowerChar c =
     (case map_of (zip ''ABCDEFGHIJKLMNOPQRSTUVWXYZ'' ''abcdefghijklmnopqrstuvwxyz'') c of
        Some l \<Rightarrow> l
      | None \<Rightarrow> c)"

definition toLowerCase :: "string \<Rightarrow> string" where
  \<comment> \<open>\<^verbatim>\<open>String.prototype.toLowerCase\<close> on the ASCII letters. The only use is the test of
      the result against \<^verbatim>\<open>'.ipa'\<close>; no character outside ASCII lower-cases to one of
      \<^verbatim>\<open>. i p a\<close> alone, so leaving the other bytes as they are decides the test
      as the source does.\<close>
  "toLowerCase s = map lowerChar s"

fun joinWith :: "string \<Rightarrow> string list \<Rightarrow> string" where
  \<comment> \<open>\<^verbatim>\<open>Array.prototype.join\<close> on strings\<close>
  "joinWith sep [] = []"
| "joinWith sep [x] = x"
| "joinWith sep (x # y # ys) = x @ sep @ joinWith sep (y # ys)"

section \<open>Node's \<^verbatim>\<open>path\<close> module (POSIX)\<close>

text \<open>
  The program calls \<^verbatim>\<open>path.dirname\<close>, \<^verbatim>\<open>path.extname\<close>, \<^verbatim>\<open>path.basename\<close> and
  \<^verbatim>\<open>path.join\<close>. They belong to the platform, not to the repository; the definitions
  below follow the POSIX implementation of Node. Each of its functions scans the path
  from its last character; here the scan is a \<^const>\<open>dropWhile\<close>/\<^const>\<open>takeWhile\<close> over the
  reversed path.
\<close>

definition isSep :: "char \<Rightarrow> bool" where
  "isSep c = (c = CHR ''/'')"

definition lastPart :: "string \<Rightarrow> string" where
  \<comment> \<open>the last component of the path, reversed: trailing separators are skipped, then
      everything up to the next separator is taken\<close>
  "lastPart p = takeWhile (\<lambda>c. \<not> isSep c) (dropWhile isSep (rev p))"

definition dirname :: "string \<Rightarrow> string" where
  \<comment> \<open>The scan runs from the last index down to index 1. \<open>r\<close> is what is left of it at
      the first separator found after a character that is not one; its length is the
      index \<^verbatim>\<open>end\<close> of that separator.\<close>
  "dirname p =
     (if p = [] then ''.''
      else let hasRoot = isSep (hd p);
               r = dropWhile (\<lambda>c. \<not> isSep c) (dropWhile isSep (rev (tl p)))
           in if r = [] then (if hasRoot then ''/'' else ''.'')
              else if hasRoot \<and> length r = 1 then ''//''
              else take (length r) p)"

definition extname :: "string \<Rightarrow> string" where
  \<comment> \<open>\<open>a\<close> is what follows the last dot of the last component (reversed), \<open>b\<close> what
      precedes it. No extension when there is no dot, when nothing precedes the dot
      (\<^verbatim>\<open>preDotState === 0\<close>), or when the component is \<^verbatim>\<open>..\<close>.\<close>
  "extname p =
     (let c = lastPart p;
          a = takeWhile (\<lambda>x. x \<noteq> CHR ''.'') c;
          d = dropWhile (\<lambda>x. x \<noteq> CHR ''.'') c
      in if d = [] then []
         else let b = tl d in
              if b = [] \<or> (b = ''.'' \<and> a = []) then []
              else CHR ''.'' # rev a)"

definition basename :: "string \<Rightarrow> string \<Rightarrow> string" where
  \<comment> \<open>\<^verbatim>\<open>path.basename(path, suffix)\<close>. With a suffix in use, the characters of the last
      component are compared with the suffix from the end: the suffix is cut off when
      the component ends with it and is longer than it; when the component runs out
      first, \<^verbatim>\<open>end\<close> stays unset and the slice runs to the end of the path, trailing
      separators included.\<close>
  "basename p suffix =
     (if suffix \<noteq> [] \<and> length suffix \<le> length p then
        if suffix = p then []
        else let c = lastPart p; rs = rev suffix in
             if take (length rs) c = rs then
               (if c = rs then rev c else rev (drop (length rs) c))
             else if take (length c) rs = c then
               rev c @ rev (takeWhile isSep (rev p))
             else rev c
      else rev (lastPart p))"

fun splitSep :: "string \<Rightarrow> string list" where
  \<comment> \<open>the segments of a path between its separators\<close>
  "splitSep [] = [[]]"
| "splitSep (c # cs) =
     (if isSep c then [] # splitSep cs
      else (case splitSep cs of [] \<Rightarrow> [[c]] | s # ss \<Rightarrow> (c # s) # ss))"

definition normalizeStep :: "bool \<Rightarrow> string list \<Rightarrow> string \<Rightarrow> string list" where
  \<comment> \<open>one segment of \<^verbatim>\<open>normalizeString\<close>: empty and \<^verbatim>\<open>.\<close> segments are dropped, \<^verbatim>\<open>..\<close>
      removes the segment before it, or is kept when there is none and the path is
      relative\<close>
  "normalizeStep allowAboveRoot res seg =
     (if seg = [] \<or> seg = ''.'' then res
      else if seg = ''..'' then
        (if res \<noteq> [] \<and> last res \<noteq> ''..'' then butlast res
         else if allowAboveRoot then res @ [''..''] else res)
      else res @ [seg])"

definition normalizeString :: "string \<Rightarrow> bool \<Rightarrow> string" where
  "normalizeString p allowAboveRoot =
     joinWith ''/'' (foldl (normalizeStep allowAboveRoot) [] (splitSep p))"

definition normalize_path :: "string \<Rightarrow> string" where
  "normalize_path p =
     (if p = [] then ''.''
      else let isAbsolute = isSep (hd p);
               trailingSeparator = isSep (last p);
               q = normalizeString p (\<not> isAbsolute)
           in if q = [] then
                (if isAbsolute then ''/'' else if trailingSeparator then ''./'' else ''.'')
              else (if isAbsolute then ''/'' else []) @ q @
                   (if trailingSeparator then ''/'' else []))"

definition join :: "string list \<Rightarrow> string" where
  \<comment> \<open>\<^verbatim>\<open>path.join(...args)\<close>: the non-empty arguments, joined by the separator and
      normalized\<close>
  "join args =
     (let joined = filter (\<lambda>a. a \<noteq> []) args in
      if joined = [] then ''.'' else normalize_path (joinWith ''/'' joined))"

section \<open>JavaScript values\<close>

text \<open>
  A decoded manifest is whatever the property-list parser returns: usually a
  dictionary, but its values, and the top-level value itself, may be of any kind.
  Strings, booleans, arrays and dictionaries are written out. \<open>JHost\<close> stands for every
  other value a parser returns: a Number (a property list's integer or real), a Date, a
  Buffer (a property list's data). Of such a value the program asks two things only,
  whether it is truthy and which string a template literal makes of it; both belong to
  the engine (a Number prints as the shortest decimal that reads back to it, in
  exponent form from \<^verbatim>\<open>1e21\<close>; a Date prints in the local time zone) and are parameters
  here, \<open>hostTruthy\<close> and \<open>hostToString\<close>. A host value has no method \<^verbatim>\<open>replace\<close> and none
  of the keys the program reads. \<open>JObj\<close> is a plain object, with the prototype
  \<^verbatim>\<open>Object.prototype\<close>; it lists the object's own properties, the first binding of a key
  being the one in force.
\<close>

datatype 'x jsvalue =
    JUndefined
  | JNull
  | JBool bool
  | JStr string
  | JArr "'x jsvalue list"
  | JObj "(string \<times> 'x jsvalue) list"
  | JHost 'x

datatype js_error =
    TypeError
  | ParseError
  | EmittedError  \<comment> \<open>an \<^verbatim>\<open>'error'\<close> event with no listener: \<^verbatim>\<open>emit\<close> throws its argument\<close>

text \<open>
  The engine's view of host values, the parsers of \<^verbatim>\<open>bplist-parser\<close> and \<^verbatim>\<open>plist\<close> and the
  refusals of the operating system are parameters.
\<close>

record 'x platform =
  hostTruthy :: "'x \<Rightarrow> bool"
  hostToString :: "'x \<Rightarrow> string"
  bplist_parseBuffer :: "string \<Rightarrow> js_error + 'x jsvalue list"
  plist_parse :: "string \<Rightarrow> js_error + 'x jsvalue"
  renameRefused :: "string \<Rightarrow> string \<Rightarrow> bool"

fun truthy :: "'x platform \<Rightarrow> 'x jsvalue \<Rightarrow> bool" where
  "truthy P JUndefined = False"
| "truthy P JNull = False"
| "truthy P (JBool b) = b"
| "truthy P (JStr s) = (s \<noteq> [])"
| "truthy P (JArr xs) = True"
| "truthy P (JObj kvs) = True"
| "truthy P (JHost h) = hostTruthy P h"

definition jsOr :: "'x platform \<Rightarrow> 'x jsvalue \<Rightarrow> 'x jsvalue \<Rightarrow> 'x jsvalue" where
  \<comment> \<open>\<^verbatim>\<open>a || b\<close>\<close>
  "jsOr P a b = (if truthy P a then a else b)"

fun getProp :: "'x jsvalue \<Rightarrow> string \<Rightarrow> 'x jsvalue" where
  \<comment> \<open>\<^verbatim>\<open>data.key\<close> on a value that is neither \<^verbatim>\<open>null\<close> nor \<^verbatim>\<open>undefined\<close>; none of the
      keys the program reads is a property of a string, an array or a host value\<close>
  "getProp (JObj kvs) k = (case map_of kvs k of Some v \<Rightarrow> v | None \<Rightarrow> JUndefined)"
| "getProp v k = JUndefined"

fun sequence :: "('e + 'a) list \<Rightarrow> 'e + 'a list" where
  \<comment> \<open>the results in order, or the first exception\<close>
  "sequence [] = Inr []"
| "sequence (Inl e # rs) = Inl e"
| "sequence (Inr x # rs) = (case sequence rs of Inl e \<Rightarrow> Inl e | Inr xs \<Rightarrow> Inr (x # xs))"

fun toString :: "'x platform \<Rightarrow> 'x jsvalue \<Rightarrow> js_error + string" where
  \<comment> \<open>The conversion a template literal applies to an interpolated value. An array
      joins the strings of its elements, \<^verbatim>\<open>null\<close> and \<^verbatim>\<open>undefined\<close> giving the empty
      string. A plain object is printed by \<^verbatim>\<open>Object.prototype.toString\<close>, unless it has
      a property \<^verbatim>\<open>toString\<close> of its own: a parsed value is never a function, the
      conversion then turns to \<^verbatim>\<open>valueOf\<close>, which is not a function either or returns
      the object, and throws.\<close>
  "toString P JUndefined = Inr ''undefined''"
| "toString P JNull = Inr ''null''"
| "toString P (JBool b) = Inr (if b then ''true'' else ''false'')"
| "toString P (JStr s) = Inr s"
| "toString P (JArr xs) =
     (case sequence (map (\<lambda>x. if x = JUndefined \<or> x = JNull then Inr [] else toString P x) xs) of
        Inl e \<Rightarrow> Inl e
      | Inr strs \<Rightarrow> Inr (joinWith '','' strs))"
| "toString P (JObj kvs) =
     (if map_of kvs ''toString'' = None then Inr ''[object Object]'' else Inl TypeError)"
| "toString P (JHost h) = Inr (hostToString P h)"

section \<open>Metadata extraction\<close>

record info =
  appName :: string
  version :: string
  minIOS :: string

definition appNameOf :: "'x platform \<Rightarrow> 'x jsvalue \<Rightarrow> js_error + string" where
  \<comment> \<open>\<^verbatim>\<open>(a || b || c || d)?.replace(re, ' ') || 'UnknownName'\<close>. The optional call returns
      \<^verbatim>\<open>undefined\<close> on \<^verbatim>\<open>null\<close> and \<^verbatim>\<open>undefined\<close> only; on any other value that is not a
      string, \<^verbatim>\<open>replace\<close> is not a function and the call throws.\<close>
  "appNameOf P data =
     (case jsOr P (jsOr P (jsOr P (getProp data ''CFBundleDisplayName'')
                                  (getProp data ''CFBundleName''))
                          (getProp data ''BundleDisplayName''))
                  (getProp data ''UILocalizedDisplayName'') of
        JUndefined \<Rightarrow> Inr ''UnknownName''
      | JNull \<Rightarrow> Inr ''UnknownName''
      | JStr s \<Rightarrow> Inr (if replaceReserved s \<noteq> [] then replaceReserved s else ''UnknownName'')
      | _ \<Rightarrow> Inl TypeError)"

definition rawVersionOf :: "'x platform \<Rightarrow> 'x jsvalue \<Rightarrow> 'x jsvalue" where
  "rawVersionOf P data =
     jsOr P (jsOr P (getProp data ''CFBundleShortVersionString'') (getProp data ''CFBundleVersion''))
          JNull"

definition versionOf :: "'x platform \<Rightarrow> 'x jsvalue \<Rightarrow> js_error + string" where
  "versionOf P data =
     (if truthy P (rawVersionOf P data) then
        (case toString P (rawVersionOf P data) of
           Inl e \<Rightarrow> Inl e
         | Inr s \<Rightarrow> Inr ('' [v'' @ s @ '']''))
      else Inr [])"

definition minIOSOf :: "'x platform \<Rightarrow> 'x jsvalue \<Rightarrow> js_error + string" where
  "minIOSOf P data =
     (case toString P (jsOr P (getProp data ''MinimumOSVersion'') (JStr ''0.0.0'')) of
        Inl e \<Rightarrow> Inl e
      | Inr s \<Rightarrow> Inr ('' [iOS '' @ s @ '']''))"

definition buildInfo :: "'x platform \<Rightarrow> 'x jsvalue \<Rightarrow> js_error + info" where
  \<comment> \<open>lines 160 to 165, in their order; reading a property of \<^verbatim>\<open>null\<close> or \<^verbatim>\<open>undefined\<close>
      throws\<close>
  "buildInfo P data =
     (if data = JUndefined \<or> data = JNull then Inl TypeError
      else case appNameOf P data of
             Inl e \<Rightarrow> Inl e
           | Inr n \<Rightarrow>
               (case versionOf P data of
                  Inl e \<Rightarrow> Inl e
                | Inr v \<Rightarrow>
                    (case minIOSOf P data of
                       Inl e \<Rightarrow> Inl e
                     | Inr m \<Rightarrow> Inr \<lparr>appName = n, version = v, minIOS = m\<rparr>)))"

section \<open>Locating and decoding the manifest\<close>

text \<open>
  The regular expression \<^verbatim>\<open>/Payload\/[^/]+\.app\/Info\.plist$/\<close> is a sequence of literal
  characters and one repetition \<^verbatim>\<open>[^/]+\<close>, closed by \<^verbatim>\<open>$\<close>. \<open>matchHere\<close> matches such a
  sequence at the start of a string and up to its end, backtracking over the
  repetition; \<open>regexTest\<close> tries every start position, as \<^verbatim>\<open>RegExp.prototype.test\<close>
  does for a pattern with no \<^verbatim>\<open>^\<close>.
\<close>

datatype rx = Lit char | PlusNot char

fun matchHere :: "rx list \<Rightarrow> string \<Rightarrow> bool" where
  "matchHere [] s = (s = [])"
| "matchHere (i # r) [] = False"
| "matchHere (Lit c # r) (x # xs) = (x = c \<and> matchHere r xs)"
| "matchHere (PlusNot c # r) (x # xs) =
     (x \<noteq> c \<and> (matchHere (PlusNot c # r) xs \<or> matchHere r xs))"

fun regexTest :: "rx list \<Rightarrow> string \<Rightarrow> bool" where
  "regexTest r [] = matchHere r []"
| "regexTest r (x # xs) = (matchHere r (x # xs) \<or> regexTest r xs)"

definition manifestPattern :: "rx list" where
  "manifestPattern =
     map Lit ''Payload/'' @ [PlusNot CHR ''/''] @ map Lit ''.app/Info.plist''"

text \<open>
  What \<^verbatim>\<open>yauzl\<close> does with a file. Opening it fails, with an error for the callback
  (\<open>NotAZip\<close>), or gives a container. With \<^verbatim>\<open>lazyEntries\<close>, each \<^verbatim>\<open>readEntry()\<close> is answered
  by one event: \<^verbatim>\<open>'entry'\<close> with the next entry of the central directory, and after the
  last one \<^verbatim>\<open>'end'\<close>; or, where the directory is damaged or an entry's name is refused,
  \<^verbatim>\<open>'error'\<close>. A \<open>Zip\<close> holds the entries that are delivered, in the container's order,
  and the event that follows them. Opening the stream of an entry fails, with an error
  for the callback (\<open>StreamError\<close>); or the stream delivers its chunks and ends, their
  concatenation being the entry's content (\<open>StreamData\<close>); or it opens and emits
  \<^verbatim>\<open>'error'\<close>, as it does when the compressed data do not inflate (\<open>StreamFails\<close>).
\<close>

datatype readStream = StreamError | StreamData string | StreamFails

record entry =
  fileName :: string
  stream :: readStream

datatype lastEvent = EndEvent | ErrorEvent

datatype archive = NotAZip | Zip "entry list" lastEvent

type_synonym fs = "string \<rightharpoonup> archive"

fun readEntry :: "entry list \<Rightarrow> entry option" where
  \<comment> \<open>the \<^verbatim>\<open>'entry'\<close> handler over the entries delivered: an entry that does not match
      asks for the next one; \<open>None\<close> when none of them matches\<close>
  "readEntry [] = None"
| "readEntry (e # es) =
     (if \<not> regexTest manifestPattern (fileName e) then readEntry es else Some e)"

definition parseManifest :: "'x platform \<Rightarrow> string \<Rightarrow> js_error + 'x jsvalue" where
  \<comment> \<open>the expression inside \<^verbatim>\<open>try\<close>. \<^verbatim>\<open>buffer.toString()\<close> decodes UTF-8, which is how a
      string is held here; a slice decodes to \<^verbatim>\<open>'bplist'\<close> exactly when it is those six
      bytes.\<close>
  "parseManifest P buffer =
     (if take 6 buffer = ''bplist'' then
        (case bplist_parseBuffer P buffer of
           Inl e \<Rightarrow> Inl e
         | Inr objs \<Rightarrow> Inr (case objs of [] \<Rightarrow> JUndefined | x # _ \<Rightarrow> x))
      else plist_parse P buffer)"

definition extractInfoFromIPA :: "'x platform \<Rightarrow> fs \<Rightarrow> string \<Rightarrow> js_error + info option" where
  \<comment> \<open>\<open>Inr None\<close> is \<^verbatim>\<open>resolve(null)\<close>. \<open>Inl\<close> is an exception that nothing catches: one
      thrown by lines 160 to 165, or the argument of an \<^verbatim>\<open>'error'\<close> event, for which the
      source registers no listener on the container or on the stream. The promise is
      then never resolved and the process ends.\<close>
  "extractInfoFromIPA P archives ipaPath =
     (case archives ipaPath of
        None \<Rightarrow> Inr None
      | Some NotAZip \<Rightarrow> Inr None
      | Some (Zip entries lastEvent) \<Rightarrow>
          (case readEntry entries of
             None \<Rightarrow>
               (case lastEvent of
                  EndEvent \<Rightarrow> Inr None
                | ErrorEvent \<Rightarrow> Inl EmittedError)
           | Some e \<Rightarrow>
               (case stream e of
                  StreamError \<Rightarrow> Inr None
                | StreamFails \<Rightarrow> Inl EmittedError
                | StreamData buffer \<Rightarrow>
                    (case parseManifest P buffer of
                       Inl err \<Rightarrow> Inr None
                     | Inr data \<Rightarrow>
                         (case buildInfo P data of
                            Inl err \<Rightarrow> Inl err
                          | Inr i \<Rightarrow> Inr (Some i))))))"

section \<open>The rename planner and the scan\<close>

record settings =
  INCLUDE_ORIGINAL_NAME :: bool
  SUPPORTED_EXTENSIONS :: "string list"

definition iOSIPARenamerSettings :: settings where
  "iOSIPARenamerSettings =
     \<lparr>INCLUDE_ORIGINAL_NAME = True, SUPPORTED_EXTENSIONS = [''.ipa'']\<rparr>"

definition isFileSupported :: "settings \<Rightarrow> string \<Rightarrow> bool" where
  "isFileSupported S fileExt = List.member (SUPPORTED_EXTENSIONS S) fileExt"

definition safeNewName :: "settings \<Rightarrow> info \<Rightarrow> string \<Rightarrow> string \<Rightarrow> string" where
  \<comment> \<open>the local \<^verbatim>\<open>safeNewName\<close> of \<^verbatim>\<open>#getNewFilePath\<close>\<close>
  "safeNewName S i fileExt originalPath =
     (let realExt = extname originalPath;
          fileName = basename originalPath realExt;
          prefix = (if INCLUDE_ORIGINAL_NAME S then fileName @ '' '' @ arrow @ '' '' else [])
      in replaceReserved
           (prefix @ appName i @ '' '' @ en_dash @ version i @ minIOS i @ fileExt))"

definition getNewFilePath :: "settings \<Rightarrow> info \<Rightarrow> string \<Rightarrow> string \<Rightarrow> string option" where
  "getNewFilePath S i fileExt originalPath =
     (let dirName = dirname originalPath;
          newPath = join [dirName, safeNewName S i fileExt originalPath]
      in if newPath = originalPath then None else Some newPath)"

record state =
  files :: fs
  renamedFilesLength :: nat
  skippedFilesLength :: nat

definition skip :: "state \<Rightarrow> state" where
  \<comment> \<open>\<^verbatim>\<open>this.#skippedFilesLength++\<close>\<close>
  "skip st = st\<lparr>skippedFilesLength := skippedFilesLength st + 1\<rparr>"

definition safeRenameFile :: "'x platform \<Rightarrow> state \<Rightarrow> string \<Rightarrow> string \<Rightarrow> state" where
  \<comment> \<open>\<^verbatim>\<open>fs.rename\<close> moves the file and replaces a file at the target; it fails when the
      source is missing or the system refuses\<close>
  "safeRenameFile P st filePath newFilePath =
     (case files st filePath of
        Some a \<Rightarrow>
          if renameRefused P filePath newFilePath then skip st
          else st\<lparr>files := (files st)(filePath := None, newFilePath \<mapsto> a),
                  renamedFilesLength := renamedFilesLength st + 1\<rparr>
      | None \<Rightarrow> skip st)"

definition processFile :: "'x platform \<Rightarrow> settings \<Rightarrow> state \<Rightarrow> string \<Rightarrow> js_error + state" where
  \<comment> \<open>the body of the loop of \<^verbatim>\<open>#renameFiles\<close>\<close>
  "processFile P S st filePath =
     (let fileExt = toLowerCase (extname filePath) in
      if \<not> isFileSupported S fileExt then Inr (skip st)
      else case extractInfoFromIPA P (files st) filePath of
             Inl err \<Rightarrow> Inl err
           | Inr None \<Rightarrow> Inr (skip st)
           | Inr (Some i) \<Rightarrow>
               (case getNewFilePath S i fileExt filePath of
                  None \<Rightarrow> Inr (skip st)
                | Some newFilePath \<Rightarrow> Inr (safeRenameFile P st filePath newFilePath)))"

fun renameFiles :: "'x platform \<Rightarrow> settings \<Rightarrow> state \<Rightarrow> string list \<Rightarrow> js_error + state" where
  \<comment> \<open>the loop over \<^verbatim>\<open>allFiles\<close>; an exception ends it. The cleanup after the loop
      removes \<^verbatim>\<open>node_modules\<close> and the two package files, none of which the walk lists.\<close>
  "renameFiles P S st [] = Inr st"
| "renameFiles P S st (filePath # rest) =
     (case processFile P S st filePath of
        Inl err \<Rightarrow> Inl err
      | Inr st' \<Rightarrow> renameFiles P S st' rest)"

section \<open>Paths of the walk\<close>

text \<open>
  \<^verbatim>\<open>#walkDir\<close> starts at \<^verbatim>\<open>__dirname\<close>, an absolute normalized path, and extends a
  directory by \<^verbatim>\<open>path.join(dir, entryName)\<close>, where \<^verbatim>\<open>entryName\<close> is a name read from the
  directory: not empty, without a separator, and neither \<^verbatim>\<open>.\<close> nor \<^verbatim>\<open>..\<close>. The paths it
  lists are therefore the \<open>absPath\<close> of a non-empty list of such names.
\<close>

definition isName :: "string \<Rightarrow> bool" where
  "isName n = (n \<noteq> [] \<and> CHR ''/'' \<notin> set n \<and> n \<noteq> ''.'' \<and> n \<noteq> ''..'')"

definition absPath :: "string list \<Rightarrow> string" where
  "absPath segs = concat (map (\<lambda>s. CHR ''/'' # s) segs)"

section \<open>The specification's own definitions\<close>

text \<open>
  The locator as the specification words it: the first entry whose whole name matches
  the pattern, anchored at both ends.
\<close>

definition specLocate :: "entry list \<Rightarrow> entry option" where
  "specLocate entries = find (\<lambda>e. matchHere manifestPattern (fileName e)) entries"

text \<open>
  The failures of one archive that the source handles, under the names the
  specification gives them: the container does not open, no entry matches, the stream
  of the entry does not open, the content does not parse. \<open>failureOf\<close> says which of
  them, if any, an archive meets.
\<close>

datatype failure = OpenError | NoMatchingEntry | EntryReadError | DecodeError

definition failureOf :: "'x platform \<Rightarrow> fs \<Rightarrow> string \<Rightarrow> failure option" where
  "failureOf P archives ipaPath =
     (case archives ipaPath of
        None \<Rightarrow> Some OpenError
      | Some NotAZip \<Rightarrow> Some OpenError
      | Some (Zip entries lastEvent) \<Rightarrow>
          (case find (\<lambda>e. regexTest manifestPattern (fileName e)) entries of
             None \<Rightarrow> (case lastEvent of EndEvent \<Rightarrow> Some NoMatchingEntry | ErrorEvent \<Rightarrow> None)
           | Some e \<Rightarrow>
               (case stream e of
                  StreamError \<Rightarrow> Some EntryReadError
                | StreamFails \<Rightarrow> None
                | StreamData buffer \<Rightarrow>
                    (case parseManifest P buffer of
                       Inl err \<Rightarrow> Some DecodeError
                     | Inr data \<Rightarrow> None))))"

text \<open>
  The metadata as the specification words it: the first non-empty value among the
  keys, in their order, and the fallbacks. \<open>showValue\<close> is the string of a value in a
  name; \<open>printable\<close> says that a value has one, which it has unless it is, or holds in
  an array, a dictionary with a key \<^verbatim>\<open>toString\<close>.
\<close>

fun showValue :: "'x platform \<Rightarrow> 'x jsvalue \<Rightarrow> string" where
  "showValue P JUndefined = ''undefined''"
| "showValue P JNull = ''null''"
| "showValue P (JBool b) = (if b then ''true'' else ''false'')"
| "showValue P (JStr s) = s"
| "showValue P (JArr xs) =
     joinWith '','' (map (\<lambda>x. if x = JUndefined \<or> x = JNull then [] else showValue P x) xs)"
| "showValue P (JObj kvs) = ''[object Object]''"
| "showValue P (JHost h) = hostToString P h"

fun printable :: "'x jsvalue \<Rightarrow> bool" where
  "printable (JArr xs) = list_all printable xs"
| "printable (JObj kvs) = (map_of kvs ''toString'' = None)"
| "printable v = True"

definition nameKeys :: "string list" where
  "nameKeys = [''CFBundleDisplayName'', ''CFBundleName'', ''BundleDisplayName'',
               ''UILocalizedDisplayName'']"

definition versionKeys :: "string list" where
  "versionKeys = [''CFBundleShortVersionString'', ''CFBundleVersion'']"

definition specAppName :: "'x platform \<Rightarrow> 'x jsvalue \<Rightarrow> string" where
  "specAppName P data =
     (case find (truthy P) (map (getProp data) nameKeys) of
        Some v \<Rightarrow> replaceReserved (showValue P v)
      | None \<Rightarrow> ''UnknownName'')"

definition specVersion :: "'x platform \<Rightarrow> 'x jsvalue \<Rightarrow> string" where
  "specVersion P data =
     (case find (truthy P) (map (getProp data) versionKeys) of
        Some v \<Rightarrow> '' [v'' @ showValue P v @ '']''
      | None \<Rightarrow> [])"

definition specMinPlatform :: "'x platform \<Rightarrow> 'x jsvalue \<Rightarrow> string" where
  \<comment> \<open>the default is for an absent key only\<close>
  "specMinPlatform P data =
     '' [iOS '' @
     (case data of
        JObj kvs \<Rightarrow> (case map_of kvs ''MinimumOSVersion'' of
                      None \<Rightarrow> ''0.0.0''
                    | Some v \<Rightarrow> showValue P v)
      | _ \<Rightarrow> ''0.0.0'') @ '']''"

definition isText :: "'x jsvalue \<Rightarrow> bool" where
  "isText v = (case v of JStr s \<Rightarrow> True | _ \<Rightarrow> False)"

definition nameIsText :: "'x platform \<Rightarrow> 'x jsvalue \<Rightarrow> bool" where
  \<comment> \<open>the first non-empty value under the name keys is a string; or all four are empty
      and the last one is a string, \<^verbatim>\<open>null\<close> or absent\<close>
  "nameIsText P data =
     (case find (truthy P) (map (getProp data) nameKeys) of
        Some v \<Rightarrow> isText v
      | None \<Rightarrow> (let d = getProp data ''UILocalizedDisplayName''
                in isText d \<or> d = JUndefined \<or> d = JNull))"

definition versionPrints :: "'x platform \<Rightarrow> 'x jsvalue \<Rightarrow> bool" where
  \<comment> \<open>the first non-empty value under the version keys, if there is one, has a string\<close>
  "versionPrints P data =
     (case find (truthy P) (map (getProp data) versionKeys) of
        Some v \<Rightarrow> printable v
      | None \<Rightarrow> True)"

definition minimumPrints :: "'x platform \<Rightarrow> 'x jsvalue \<Rightarrow> bool" where
  \<comment> \<open>the value under \<^verbatim>\<open>MinimumOSVersion\<close> is empty or has a string\<close>
  "minimumPrints P data =
     (if truthy P (getProp data ''MinimumOSVersion'')
      then printable (getProp data ''MinimumOSVersion'') else True)"

section \<open>Example inputs\<close>

definition exampleManifest :: "'x jsvalue" where
  "exampleManifest =
     JObj [(''CFBundleDisplayName'', JStr ''My App''),
           (''CFBundleShortVersionString'', JStr ''2.1''),
           (''MinimumOSVersion'', JStr ''14.0'')]"

definition exampleInfo :: info where
  "exampleInfo = \<lparr>appName = ''My App'', version = '' [v2.1]'', minIOS = '' [iOS 14.0]''\<rparr>"

definition renamedOnce :: string where
  \<comment> \<open>the name \<^verbatim>\<open>game.ipa\<close> gets on a first run\<close>
  "renamedOnce =
     ''game '' @ arrow @ '' My App '' @ en_dash @ '' [v2.1] [iOS 14.0].ipa''"

definition reservedManifest :: "'x jsvalue" where
  "reservedManifest =
     JObj [(''CFBundleName'', JStr ''A/B: C?''), (''CFBundleVersion'', JStr ''1|2'')]"

definition reservedInfo :: info where
  "reservedInfo = \<lparr>appName = ''A B  C '', version = '' [v1|2]'', minIOS = '' [iOS 0.0.0]''\<rparr>"

definition reservedTarget :: string where
  "reservedTarget =
     ''/ipas/a b '' @ arrow @ '' A B  C  '' @ en_dash @ '' [v1 2] [iOS 0.0.0].ipa''"

definition nestedEntry :: entry where
  "nestedEntry = \<lparr>fileName = ''backup/Payload/Game.app/Info.plist'', stream = StreamData []\<rparr>"

definition toolManifest :: "'x jsvalue" where
  "toolManifest = JObj [(''CFBundleName'', JStr ''Tool'')]"

definition numericNameManifest :: "nat jsvalue" where
  "numericNameManifest = JObj [(''CFBundleDisplayName'', JHost 42)]"

definition mixedManifest :: "nat jsvalue" where
  \<comment> \<open>a name with a reserved character, a short version that is the number 0, a version
      that is the number 7, and an array of numbers as the minimum version\<close>
  "mixedManifest =
     JObj [(''CFBundleName'', JStr ''Too/l''),
           (''CFBundleShortVersionString'', JHost 0),
           (''CFBundleVersion'', JHost 7),
           (''MinimumOSVersion'', JArr [JHost 14, JHost 0])]"

definition trueNameManifest :: "'x jsvalue" where
  "trueNameManifest = JObj [(''CFBundleName'', JBool True)]"

definition falseMinimumManifest :: "'x jsvalue" where
  "falseMinimumManifest = JObj [(''MinimumOSVersion'', JBool False)]"

fun digitsOf :: "nat \<Rightarrow> string" where
  "digitsOf n =
     (if n < 10 then [''0123456789'' ! n]
      else digitsOf (n div 10) @ [''0123456789'' ! (n mod 10)])"

definition examplePlatform :: "nat platform" where
  \<comment> \<open>an engine whose host values are small natural numbers, parsers that know three
      documents, and a system that refuses no rename\<close>
  "examplePlatform =
     \<lparr>hostTruthy = (\<lambda>n. n \<noteq> 0),
      hostToString = digitsOf,
      bplist_parseBuffer =
        (\<lambda>b. if b = ''bplist00 Tool'' then Inr [toolManifest] else Inl ParseError),
      plist_parse =
        (\<lambda>s. if s = ''<plist>My App</plist>'' then Inr exampleManifest
             else if s = ''<plist>42</plist>'' then Inr numericNameManifest
             else Inl ParseError),
      renameRefused = (\<lambda>old new. False)\<rparr>"


definition exampleArchive :: archive where
  "exampleArchive =
     Zip [\<lparr>fileName = ''iTunesMetadata.plist'', stream = StreamData ''<plist>42</plist>''\<rparr>,
          \<lparr>fileName = ''Payload/Game.app/Info.plist'',
           stream = StreamData ''<plist>My App</plist>''\<rparr>,
          \<lparr>fileName = ''Payload/Game.app/Game'', stream = StreamError\<rparr>]
         EndEvent"

definition numericNameArchive :: archive where
  "numericNameArchive =
     Zip [\<lparr>fileName = ''Payload/Odd.app/Info.plist'', stream = StreamData ''<plist>42</plist>''\<rparr>]
         EndEvent"

definition corruptEntryArchive :: archive where
  \<comment> \<open>the manifest is there, but its compressed data do not inflate\<close>
  "corruptEntryArchive =
     Zip [\<lparr>fileName = ''Payload/Game.app/Info.plist'', stream = StreamFails\<rparr>] EndEvent"

definition damagedDirectoryArchive :: archive where
  \<comment> \<open>the file opens as a container, but its central directory is damaged after the
      first entry\<close>
  "damagedDirectoryArchive =
     Zip [\<lparr>fileName = ''iTunesMetadata.plist'', stream = StreamData []\<rparr>] ErrorEvent"

definition mixedState :: state where
  \<comment> \<open>a directory with a file that is no container and a proper archive\<close>
  "mixedState =
     \<lparr>files = [''/ipas/broken.ipa'' \<mapsto> NotAZip, ''/ipas/game.ipa'' \<mapsto> exampleArchive],
      renamedFilesLength = 0, skippedFilesLength = 0\<rparr>"

definition oddState :: state where
  \<comment> \<open>an archive whose manifest has a number for a name, and a proper archive\<close>
  "oddState =
     \<lparr>files = [''/ipas/a-odd.ipa'' \<mapsto> numericNameArchive, ''/ipas/game.ipa'' \<mapsto> exampleArchive],
      renamedFilesLength = 0, skippedFilesLength = 0\<rparr>"

definition corruptState :: state where
  \<comment> \<open>an archive with a corrupt manifest entry, one with a damaged directory, and a
      proper archive\<close>
  "corruptState =
     \<lparr>files = [''/ipas/a-corrupt.ipa'' \<mapsto> corruptEntryArchive,
               ''/ipas/b-damaged.ipa'' \<mapsto> damagedDirectoryArchive,
               ''/ipas/game.ipa'' \<mapsto> exampleArchive],
      renamedFilesLength = 0, skippedFilesLength = 0\<rparr>"

definition claimedName :: string where
  \<comment> \<open>the name the specification's scenario gives\<close>
  "claimedName = ''game '' @ arrow @ '' My App '' @ en_dash @ ''[v2.1] [iOS 14.0].ipa''"

definition renamedTwice :: string where
  "renamedTwice =
     ''game '' @ arrow @ '' My App '' @ en_dash @ '' [v2.1] [iOS 14.0] '' @ arrow @
     '' My App '' @ en_dash @ '' [v2.1] [iOS 14.0].ipa''"

text \<open>
  Two runs over one archive: each run starts with its counters at zero, the second one
  on the directory the first one left.
\<close>

definition firstRun :: state where
  "firstRun = \<lparr>files = [''/ipas/game.ipa'' \<mapsto> exampleArchive],
                renamedFilesLength = 0, skippedFilesLength = 0\<rparr>"

definition afterFirstRun :: state where
  "afterFirstRun = \<lparr>files = [''/ipas/'' @ renamedOnce \<mapsto> exampleArchive],
                     renamedFilesLength = 1, skippedFilesLength = 0\<rparr>"

definition secondRun :: state where
  "secondRun = \<lparr>files = [''/ipas/'' @ renamedOnce \<mapsto> exampleArchive],
                 renamedFilesLength = 0, skippedFilesLength = 0\<rparr>"

definition afterSecondRun :: state where
  "afterSecondRun = \<lparr>files = [''/ipas/'' @ renamedTwice \<mapsto> exampleArchive],
                      renamedFilesLength = 1, skippedFilesLength = 0\<rparr>"

definition upperTarget :: string where
  "upperTarget = ''/ipas/GAME '' @ arrow @ '' My App '' @ en_dash @ '' [v2.1] [iOS 14.0].ipa''"

section \<open>Properties of the path functions\<close>

lemmas path_defs =
  dirname_def extname_def basename_def lastPart_def isSep_def join_def normalize_path_def
  normalizeString_def normalizeStep_def

lemmas plan_defs =
  getNewFilePath_def safeNewName_def replaceReserved_def reserved_def arrow_def en_dash_def
  iOSIPARenamerSettings_def Let_def

lemmas info_defs =
  buildInfo_def appNameOf_def versionOf_def rawVersionOf_def minIOSOf_def jsOr_def

lemma last_not: "s \<noteq> [] \<Longrightarrow> c \<notin> set s \<Longrightarrow> last s \<noteq> c"
  by (metis last_in_set)

lemma hd_not: "s \<noteq> [] \<Longrightarrow> c \<notin> set s \<Longrightarrow> hd s \<noteq> c"
  by (metis hd_in_set)

lemma lastPart_append:
  assumes "s \<noteq> []" and "CHR ''/'' \<notin> set s" and "X = [] \<or> last X = CHR ''/''"
  shows "lastPart (X @ s) = rev s"
proof -
  let ?P = "\<lambda>c. \<not> isSep c"
  have hd: "\<not> isSep (hd (rev s))"
    using assms(1,2) by (simp add: isSep_def hd_rev last_not)
  have d: "dropWhile isSep (rev s @ rev X) = rev s @ rev X"
    using assms(1) hd by (cases "rev s") auto
  have t: "takeWhile ?P (rev X) = []"
  proof (cases "rev X")
    case Nil
    then show ?thesis by simp
  next
    case (Cons x xs)
    then have "X \<noteq> []" by auto
    then have "last X = CHR ''/''" using assms(3) by simp
    moreover have "last X = x" using Cons by (metis hd_rev list.sel(1))
    ultimately show ?thesis using Cons by (simp add: isSep_def)
  qed
  have "takeWhile ?P (rev s @ rev X) = rev s @ takeWhile ?P (rev X)"
    by (rule takeWhile_append2) (use assms(2) in \<open>auto simp: isSep_def\<close>)
  then show ?thesis by (simp add: lastPart_def d t)
qed

lemma splitSep_nonempty: "splitSep p \<noteq> []"
  by (induction p) (auto split: list.splits)

lemma splitSep_nosep: "CHR ''/'' \<notin> set s \<Longrightarrow> splitSep s = [s]"
  by (induction s) (auto simp: isSep_def)

lemma splitSep_append_sep:
  "CHR ''/'' \<notin> set a \<Longrightarrow> splitSep (a @ CHR ''/'' # b) = a # splitSep b"
  by (induction a) (auto simp: isSep_def)

lemma splitSep_append:
  "splitSep (a @ CHR ''/'' # b) = splitSep a @ splitSep b"
  by (induction a) (auto simp: isSep_def splitSep_nonempty split: list.splits)

lemma joinWith_snoc:
  "joinWith sep (xs @ [s]) = (if xs = [] then s else joinWith sep xs @ sep @ s)"
  by (induction sep xs rule: joinWith.induct) auto

lemma normalizeStep_name: "isName s \<Longrightarrow> normalizeStep a res s = res @ [s]"
  by (simp add: normalizeStep_def isName_def)

lemma normalize_path_plain:
  "p \<noteq> [] \<Longrightarrow> \<not> isSep (last p) \<Longrightarrow> normalizeString p (\<not> isSep (hd p)) \<noteq> [] \<Longrightarrow>
   normalize_path p = (if isSep (hd p) then ''/'' else []) @ normalizeString p (\<not> isSep (hd p))"
  by (simp add: normalize_path_def Let_def)

lemma normalize_snoc:
  assumes "isName s" and "d \<noteq> []"
  shows "\<exists>X. normalize_path (d @ ''/'' @ s) = X @ s \<and> (X = [] \<or> last X = CHR ''/'')"
proof -
  let ?p = "d @ ''/'' @ s"
  define a where "a = (\<not> isSep (hd ?p))"
  define R where "R = foldl (normalizeStep a) [] (splitSep d)"
  define Y where "Y = (if R = [] then [] else joinWith ''/'' R @ ''/'')"
  have s: "s \<noteq> []" "CHR ''/'' \<notin> set s" using assms(1) by (auto simp: isName_def)
  have split: "splitSep ?p = splitSep d @ [s]"
    using s by (simp add: splitSep_append splitSep_nosep)
  have q: "normalizeString ?p a = Y @ s"
    unfolding normalizeString_def split R_def Y_def
    by (simp add: normalizeStep_name[OF assms(1)] joinWith_snoc)
  have Y: "Y = [] \<or> last Y = CHR ''/''" by (simp add: Y_def)
  have last: "\<not> isSep (last ?p)" using s by (simp add: isSep_def last_not)
  have "normalize_path ?p = (if isSep (hd ?p) then ''/'' else []) @ normalizeString ?p a"
    unfolding a_def
    by (rule normalize_path_plain) (use s last q in \<open>auto simp: a_def\<close>)
  then have "normalize_path ?p = ((if isSep (hd ?p) then ''/'' else []) @ Y) @ s"
    using q by simp
  moreover have "(if isSep (hd ?p) then ''/'' else []) @ Y = [] \<or>
                 last ((if isSep (hd ?p) then ''/'' else []) @ Y) = CHR ''/''"
    using Y by auto
  ultimately show ?thesis by blast
qed

lemma normalizeString_name: "isName s \<Longrightarrow> normalizeString s a = s"
  by (simp add: normalizeString_def splitSep_nosep normalizeStep_name isName_def)

lemma normalize_name:
  assumes "isName s"
  shows "normalize_path s = s"
proof -
  have s: "s \<noteq> []" "CHR ''/'' \<notin> set s" using assms by (auto simp: isName_def)
  have "normalize_path s = (if isSep (hd s) then ''/'' else []) @ normalizeString s (\<not> isSep (hd s))"
    by (rule normalize_path_plain) (use s in \<open>simp_all add: normalizeString_name[OF assms] isSep_def last_not\<close>)
  then show ?thesis using s by (simp add: normalizeString_name[OF assms] isSep_def hd_not)
qed

lemma join_shape:
  assumes "isName s"
  shows "\<exists>X. join [d, s] = X @ s \<and> (X = [] \<or> last X = CHR ''/'')"
proof (cases "d = []")
  case True
  then show ?thesis using assms by (simp add: join_def normalize_name isName_def)
next
  case False
  have "s \<noteq> []" using assms by (simp add: isName_def)
  then have "join [d, s] = normalize_path (d @ ''/'' @ s)"
    using False by (simp add: join_def)
  then show ?thesis using normalize_snoc[OF assms False] by simp
qed

lemma basename_join: "isName s \<Longrightarrow> basename (join [d, s]) [] = s"
proof -
  assume n: "isName s"
  obtain X where X: "join [d, s] = X @ s" "X = [] \<or> last X = CHR ''/''"
    using join_shape[OF n] by blast
  show ?thesis
    using n lastPart_append[OF _ _ X(2), of s] by (simp add: basename_def X(1) isName_def)
qed


lemma lastPart_length: "length (lastPart p) \<le> length p"
proof -
  have "length (lastPart p) \<le> length (dropWhile isSep (rev p))"
    unfolding lastPart_def by (rule length_takeWhile_le)
  also have "\<dots> \<le> length (rev p)" by (rule length_dropWhile_le)
  finally show ?thesis by simp
qed

lemma extname_cases:
  "extname p = [] \<or>
   (\<exists>a b. lastPart p = a @ CHR ''.'' # b \<and> b \<noteq> [] \<and> extname p = CHR ''.'' # rev a)"
proof -
  let ?c = "lastPart p"
  let ?a = "takeWhile (\<lambda>x. x \<noteq> CHR ''.'') ?c"
  let ?d = "dropWhile (\<lambda>x. x \<noteq> CHR ''.'') ?c"
  show ?thesis
  proof (cases "?d = [] \<or> tl ?d = [] \<or> (tl ?d = ''.'' \<and> ?a = [])")
    case True
    then show ?thesis by (auto simp: extname_def Let_def)
  next
    case False
    then have d: "?d \<noteq> []" and b: "tl ?d \<noteq> []" by auto
    have "hd ?d = CHR ''.''" using d hd_dropWhile[of "\<lambda>x. x \<noteq> CHR ''.''" ?c] by auto
    then have "?d = CHR ''.'' # tl ?d" using d by (cases ?d) auto
    then have "?c = ?a @ CHR ''.'' # tl ?d"
      using takeWhile_dropWhile_id[of "\<lambda>x. x \<noteq> CHR ''.''" ?c] by simp
    moreover have "extname p = CHR ''.'' # rev ?a"
      using False by (auto simp: extname_def Let_def)
    ultimately show ?thesis using b by blast
  qed
qed

lemma basename_extname: "basename p (extname p) @ extname p = basename p []"
proof -
  consider "extname p = []" |
    a b where "lastPart p = a @ CHR ''.'' # b" "b \<noteq> []" "extname p = CHR ''.'' # rev a"
    using extname_cases[of p] by blast
  then show ?thesis
  proof cases
    case 1
    then show ?thesis by simp
  next
    case 2
    have len: "length (extname p) < length (lastPart p)" using 2 by simp
    then have "length (extname p) \<le> length p" "extname p \<noteq> p"
      using lastPart_length[of p] by auto
    then show ?thesis using 2 by (simp add: basename_def Let_def)
  qed
qed

lemma extname_hd: "extname p \<noteq> [] \<Longrightarrow> hd (extname p) = CHR ''.''"
  using extname_cases[of p] by auto

lemma length_replaceReserved [simp]: "length (replaceReserved s) = length s"
  by (simp add: replaceReserved_def)

lemma replaceReserved_append [simp]:
  "replaceReserved (a @ b) = replaceReserved a @ replaceReserved b"
  by (simp add: replaceReserved_def)

lemma replaceReserved_free: "List.member reserved c \<Longrightarrow> c \<notin> set (replaceReserved s)"
  by (auto simp: replaceReserved_def reserved_def)

lemma replaceReserved_space: "replaceReserved (CHR '' '' # s) = CHR '' '' # replaceReserved s"
  by (simp add: replaceReserved_def reserved_def)

lemma space_in_safeNewName: "CHR '' '' \<in> set (safeNewName S i fileExt p)"
  by (simp add: safeNewName_def Let_def replaceReserved_space)

lemma safeNewName_isName: "isName (safeNewName S i fileExt p)"
proof -
  let ?n = "safeNewName S i fileExt p"
  have sp: "CHR '' '' \<in> set ?n" by (rule space_in_safeNewName)
  have "CHR ''/'' \<notin> set ?n"
    unfolding safeNewName_def Let_def
    by (rule replaceReserved_free) (simp add: reserved_def)
  moreover have "?n \<noteq> []" "?n \<noteq> ''.''" "?n \<noteq> ''..''" using sp by auto
  ultimately show ?thesis by (simp add: isName_def)
qed

lemma basename_plan:
  "getNewFilePath S i fileExt p = Some q \<Longrightarrow> basename q [] = safeNewName S i fileExt p"
  by (auto simp: getNewFilePath_def Let_def basename_join safeNewName_isName split: if_splits)

lemma prefixed_name_differs:
  assumes "INCLUDE_ORIGINAL_NAME S"
  shows "basename p [] \<noteq> safeNewName S i fileExt p"
proof
  let ?f = "basename p (extname p)"
  assume eq: "basename p [] = safeNewName S i fileExt p"
  obtain rest where n: "safeNewName S i fileExt p = replaceReserved ?f @ CHR '' '' # rest"
    using assms by (simp add: safeNewName_def Let_def replaceReserved_space)
  have "?f @ extname p = replaceReserved ?f @ CHR '' '' # rest"
    using eq n by (simp add: basename_extname)
  then have "extname p = CHR '' '' # rest" by simp
  then show False using extname_hd[of p] by simp
qed

lemma never_none:
  "INCLUDE_ORIGINAL_NAME S \<Longrightarrow>
   getNewFilePath S i fileExt p = Some (join [dirname p, safeNewName S i fileExt p])"
proof -
  assume a: "INCLUDE_ORIGINAL_NAME S"
  have "join [dirname p, safeNewName S i fileExt p] \<noteq> p"
  proof
    assume "join [dirname p, safeNewName S i fileExt p] = p"
    then have "basename p [] = safeNewName S i fileExt p"
      using basename_join[OF safeNewName_isName, of "dirname p" S i fileExt p] by simp
    then show False using prefixed_name_differs[OF a] by blast
  qed
  then show ?thesis by (simp add: getNewFilePath_def Let_def)
qed

section \<open>Sanitization of the target name\<close>

text \<open>
  C7. For every reserved character \<open>c\<close>, every manifest from which metadata is built and
  every plan the planner returns for it, the base name of the target path does not
  contain \<open>c\<close>: it is the assembled name (original base name, application name, version,
  platform and extension) with each reserved character replaced by one space.
\<close>

theorem target_basename_has_no_reserved_character:
  assumes "buildInfo P data = Inr i"
    and "getNewFilePath S i fileExt p = Some q"
    and "List.member reserved c"
  shows "c \<notin> set (basename q []) \<and>
         basename q [] =
           replaceReserved ((if INCLUDE_ORIGINAL_NAME S
                             then basename p (extname p) @ '' '' @ arrow @ '' '' else []) @
                            appName i @ '' '' @ en_dash @ version i @ minIOS i @ fileExt)"
proof -
  have b: "basename q [] = safeNewName S i fileExt p"
    by (rule basename_plan[OF assms(2)])
  have "c \<notin> set (safeNewName S i fileExt p)"
    unfolding safeNewName_def Let_def by (rule replaceReserved_free[OF assms(3)])
  then show ?thesis using b by (simp add: safeNewName_def Let_def)
qed

theorem target_basename_has_no_reserved_character_witness:
  "buildInfo examplePlatform reservedManifest = Inr reservedInfo \<and>
   getNewFilePath iOSIPARenamerSettings reservedInfo ''.ipa'' ''/ipas/a:b.ipa'' =
     Some reservedTarget \<and>
   List.member reserved CHR '':'' \<and>
   CHR '':'' \<notin> set (basename reservedTarget [])"
proof -
  have h1: "buildInfo examplePlatform reservedManifest = Inr reservedInfo"
    by (simp add: reservedManifest_def reservedInfo_def info_defs replaceReserved_def reserved_def)
  have h2: "getNewFilePath iOSIPARenamerSettings reservedInfo ''.ipa'' ''/ipas/a:b.ipa'' =
              Some reservedTarget"
    by (simp add: reservedInfo_def reservedTarget_def plan_defs path_defs)
  have h3: "List.member reserved CHR '':''"
    by (simp add: reserved_def)
  have c: "CHR '':'' \<notin> set (basename reservedTarget [])"
    using target_basename_has_no_reserved_character[OF h1 h2 h3] by (rule conjunct1)
  show ?thesis by (rule conjI h1 h2 h3 c)+
qed

section \<open>The manifest locator\<close>

lemma matchHere_lits:
  "matchHere (map Lit l @ r) s \<longleftrightarrow> (\<exists>t. s = l @ t \<and> matchHere r t)"
proof (induction l arbitrary: s)
  case Nil
  then show ?case by simp
next
  case (Cons c l)
  then show ?case by (cases s) auto
qed

lemma matchHere_plus:
  "matchHere (PlusNot c # r) s \<longleftrightarrow>
   (\<exists>seg t. s = seg @ t \<and> seg \<noteq> [] \<and> c \<notin> set seg \<and> matchHere r t)"
proof (induction s)
  case Nil
  then show ?case by simp
next
  case (Cons x xs)
  show ?case
  proof
    assume "matchHere (PlusNot c # r) (x # xs)"
    then have x: "x \<noteq> c" and alt: "matchHere (PlusNot c # r) xs \<or> matchHere r xs"
      by auto
    from alt show "\<exists>seg t. x # xs = seg @ t \<and> seg \<noteq> [] \<and> c \<notin> set seg \<and> matchHere r t"
    proof
      assume "matchHere (PlusNot c # r) xs"
      then obtain seg t where "xs = seg @ t" "c \<notin> set seg" "matchHere r t"
        using Cons.IH by blast
      then show ?thesis using x by (intro exI[of _ "x # seg"] exI[of _ t]) auto
    next
      assume "matchHere r xs"
      then show ?thesis using x by (intro exI[of _ "[x]"] exI[of _ xs]) auto
    qed
  next
    assume "\<exists>seg t. x # xs = seg @ t \<and> seg \<noteq> [] \<and> c \<notin> set seg \<and> matchHere r t"
    then obtain seg t where st: "x # xs = seg @ t" "seg \<noteq> []" "c \<notin> set seg" "matchHere r t"
      by blast
    then obtain ys where seg: "seg = x # ys" by (cases seg) auto
    show "matchHere (PlusNot c # r) (x # xs)"
    proof (cases "ys = []")
      case True
      then show ?thesis using st seg by auto
    next
      case False
      then have "matchHere (PlusNot c # r) xs"
        using Cons.IH st seg by auto
      then show ?thesis using st seg by auto
    qed
  qed
qed

lemma regexTest_iff: "regexTest r s \<longleftrightarrow> (\<exists>pre t. s = pre @ t \<and> matchHere r t)"
proof (induction s)
  case Nil
  then show ?case by simp
next
  case (Cons x xs)
  show ?case
  proof
    assume "regexTest r (x # xs)"
    then consider "matchHere r (x # xs)" | "regexTest r xs" by auto
    then show "\<exists>pre t. x # xs = pre @ t \<and> matchHere r t"
    proof cases
      case 1
      then show ?thesis by (intro exI[of _ "[]"] exI[of _ "x # xs"]) simp
    next
      case 2
      then obtain pre t where "xs = pre @ t" "matchHere r t" using Cons.IH by blast
      then show ?thesis by (intro exI[of _ "x # pre"] exI[of _ t]) simp
    qed
  next
    assume "\<exists>pre t. x # xs = pre @ t \<and> matchHere r t"
    then obtain pre t where pt: "x # xs = pre @ t" "matchHere r t" by blast
    show "regexTest r (x # xs)"
    proof (cases pre)
      case Nil
      then have "matchHere r (x # xs)" using pt by simp
      then show ?thesis by simp
    next
      case (Cons y ys)
      then have "xs = ys @ t" using pt by simp
      then show ?thesis using pt Cons.IH by auto
    qed
  qed
qed

lemma matchHere_manifestPattern:
  "matchHere manifestPattern s \<longleftrightarrow>
   (\<exists>seg. s = ''Payload/'' @ seg @ ''.app/Info.plist'' \<and> seg \<noteq> [] \<and> CHR ''/'' \<notin> set seg)"
proof -
  have tail: "matchHere (map Lit ''.app/Info.plist'') t \<longleftrightarrow> t = ''.app/Info.plist''" for t
    using matchHere_lits[of "''.app/Info.plist''" "[]" t] by auto
  have "matchHere manifestPattern s \<longleftrightarrow>
        (\<exists>t. s = ''Payload/'' @ t \<and>
             matchHere (PlusNot CHR ''/'' # map Lit ''.app/Info.plist'') t)"
    unfolding manifestPattern_def
    using matchHere_lits[of "''Payload/''" "PlusNot CHR ''/'' # map Lit ''.app/Info.plist''" s]
    by simp
  also have "\<dots> \<longleftrightarrow> (\<exists>seg. s = ''Payload/'' @ seg @ ''.app/Info.plist'' \<and> seg \<noteq> [] \<and>
                        CHR ''/'' \<notin> set seg)"
    unfolding matchHere_plus tail by auto
  finally show ?thesis .
qed

lemma regexTest_manifestPattern:
  "regexTest manifestPattern s \<longleftrightarrow>
   (\<exists>pre seg. s = pre @ ''Payload/'' @ seg @ ''.app/Info.plist'' \<and> seg \<noteq> [] \<and>
              CHR ''/'' \<notin> set seg)"
  unfolding regexTest_iff matchHere_manifestPattern by auto

lemma readEntry_find: "readEntry es = find (\<lambda>e. regexTest manifestPattern (fileName e)) es"
  by (induction es) auto

text \<open>
  C4, as amended. For every entry sequence the locator returns the first entry, in the
  container's order, whose name ends with \<^verbatim>\<open>Payload/<segment>.app/Info.plist\<close>, where the
  segment is not empty and has no separator; anything may precede \<^verbatim>\<open>Payload\<close>. It returns
  \<open>None\<close>, the \<^verbatim>\<open>'end'\<close> event, exactly when no entry's name has this form.
\<close>

theorem locator_first_match:
  "readEntry es =
     find (\<lambda>e. \<exists>pre seg. fileName e = pre @ ''Payload/'' @ seg @ ''.app/Info.plist'' \<and>
                         seg \<noteq> [] \<and> CHR ''/'' \<notin> set seg) es \<and>
   (readEntry es = None \<longleftrightarrow>
     \<not> list_ex (\<lambda>e. \<exists>pre seg. fileName e = pre @ ''Payload/'' @ seg @ ''.app/Info.plist'' \<and>
                         seg \<noteq> [] \<and> CHR ''/'' \<notin> set seg) es)"
  unfolding readEntry_find regexTest_manifestPattern
  by (auto simp: find_None_iff list_ex_iff)

text \<open>
  The pattern of the source has no \<^verbatim>\<open>^\<close>: an entry below another folder is located,
  where the anchored pattern finds nothing.
\<close>

theorem locator_not_anchored:
  "readEntry [nestedEntry] = Some nestedEntry \<and> specLocate [nestedEntry] = None"
  by (simp add: nestedEntry_def specLocate_def manifestPattern_def)

section \<open>The manifest decoder\<close>

text \<open>
  C8. A buffer that starts with the six bytes \<^verbatim>\<open>bplist\<close> goes to the binary parser: its
  error is the decoder's error, and the first object it returns is the manifest. Any
  other buffer, one shorter than six bytes included, goes to the textual parser.
\<close>

theorem signature_routing:
  "((\<exists>rest. buffer = ''bplist'' @ rest) \<longrightarrow>
      (\<forall>err. bplist_parseBuffer P buffer = Inl err \<longrightarrow> parseManifest P buffer = Inl err) \<and>
      (\<forall>obj more. bplist_parseBuffer P buffer = Inr (obj # more) \<longrightarrow>
          parseManifest P buffer = Inr obj)) \<and>
   ((\<nexists>rest. buffer = ''bplist'' @ rest) \<longrightarrow> parseManifest P buffer = plist_parse P buffer) \<and>
   (length buffer < 6 \<longrightarrow> parseManifest P buffer = plist_parse P buffer)"
proof -
  have sig: "take 6 buffer = ''bplist'' \<longleftrightarrow> (\<exists>rest. buffer = ''bplist'' @ rest)"
  proof
    assume "take 6 buffer = ''bplist''"
    then have "buffer = ''bplist'' @ drop 6 buffer"
      by (metis append_take_drop_id)
    then show "\<exists>rest. buffer = ''bplist'' @ rest" ..
  next
    assume "\<exists>rest. buffer = ''bplist'' @ rest"
    then show "take 6 buffer = ''bplist''" by auto
  qed
  have short: "take 6 buffer \<noteq> ''bplist''" if "length buffer < 6"
  proof
    assume "take 6 buffer = ''bplist''"
    then have "length (take 6 buffer) = 6" by simp
    then show False using that by simp
  qed
  have c1: "(\<exists>rest. buffer = ''bplist'' @ rest) \<longrightarrow>
      (\<forall>err. bplist_parseBuffer P buffer = Inl err \<longrightarrow> parseManifest P buffer = Inl err) \<and>
      (\<forall>obj more. bplist_parseBuffer P buffer = Inr (obj # more) \<longrightarrow>
          parseManifest P buffer = Inr obj)"
    by (auto simp: parseManifest_def)
  have c2: "(\<nexists>rest. buffer = ''bplist'' @ rest) \<longrightarrow> parseManifest P buffer = plist_parse P buffer"
  proof
    assume "\<nexists>rest. buffer = ''bplist'' @ rest"
    then have "take 6 buffer \<noteq> ''bplist''" using sig by blast
    then show "parseManifest P buffer = plist_parse P buffer" by (simp add: parseManifest_def)
  qed
  have c3: "length buffer < 6 \<longrightarrow> parseManifest P buffer = plist_parse P buffer"
    using short by (simp add: parseManifest_def)
  show ?thesis by (rule conjI c1 c2 c3)+
qed

theorem signature_routing_witness:
  "(\<exists>rest. ''bplist00 Tool'' = ''bplist'' @ rest) \<and>
   bplist_parseBuffer examplePlatform ''bplist00 Tool'' = Inr [toolManifest] \<and>
   parseManifest examplePlatform ''bplist00 Tool'' = Inr toolManifest \<and>
   length ''<pl>'' < 6 \<and>
   parseManifest examplePlatform ''<pl>'' = plist_parse examplePlatform ''<pl>''"
proof -
  have h1: "\<exists>rest. ''bplist00 Tool'' = ''bplist'' @ rest" by simp
  have h2: "bplist_parseBuffer examplePlatform ''bplist00 Tool'' = Inr [toolManifest]"
    by (simp add: examplePlatform_def)
  have h3: "length ''<pl>'' < 6" by simp
  have c1: "parseManifest examplePlatform ''bplist00 Tool'' = Inr toolManifest"
    using signature_routing[of "''bplist00 Tool''" examplePlatform] h1 h2 by blast
  have c2: "parseManifest examplePlatform ''<pl>'' = plist_parse examplePlatform ''<pl>''"
    using signature_routing[of "''<pl>''" examplePlatform] h3 by blast
  show ?thesis by (rule conjI h1 h2 h3 c1 c2)+
qed

section \<open>Failures of one archive\<close>

lemma renameFiles_append:
  "renameFiles P S st (xs @ ys) =
     (case renameFiles P S st xs of Inl err \<Rightarrow> Inl err | Inr st' \<Rightarrow> renameFiles P S st' ys)"
  by (induction xs arbitrary: st) (auto split: sum.splits)

lemma failure_resolves_null:
  "failureOf P archives p = Some f \<Longrightarrow> extractInfoFromIPA P archives p = Inr None"
  by (auto simp: failureOf_def extractInfoFromIPA_def readEntry_find
      split: option.splits archive.splits readStream.splits sum.splits lastEvent.splits)

text \<open>
  What the source does contain: when an archive with a supported extension meets one
  of the four failures it handles, at any point of the scan, the extraction resolves
  to \<^verbatim>\<open>null\<close>, the step leaves every file where it is and adds one to the number of
  skipped files, and the scan goes on with the archives that follow.
\<close>

lemma handled_failure_is_contained:
  assumes "isFileSupported S (toLowerCase (extname p))"
    and "failureOf P (files st) p = Some f"
    and "renameFiles P S st0 before = Inr st"
  shows "extractInfoFromIPA P (files st) p = Inr None \<and>
         processFile P S st p = Inr (skip st) \<and>
         files (skip st) = files st \<and>
         skippedFilesLength (skip st) = skippedFilesLength st + 1 \<and>
         renamedFilesLength (skip st) = renamedFilesLength st \<and>
         renameFiles P S st0 (before @ p # rest) = renameFiles P S (skip st) rest"
proof -
  have null: "extractInfoFromIPA P (files st) p = Inr None"
    by (rule failure_resolves_null[OF assms(2)])
  have step: "processFile P S st p = Inr (skip st)"
    using assms(1) null by (simp add: processFile_def Let_def)
  have "renameFiles P S st0 (before @ p # rest) = renameFiles P S (skip st) rest"
    using assms(3) step by (simp add: renameFiles_append)
  then show ?thesis using null step by (simp add: skip_def)
qed

lemma supported_ipa:
  "isFileSupported iOSIPARenamerSettings (toLowerCase (extname (''/ipas/'' @ n @ ''.ipa'')))"
  if "CHR ''/'' \<notin> set n" and "CHR ''.'' \<notin> set n" and "n \<noteq> []"
proof -
  have "lastPart ((''/ipas/'' @ n) @ ''.ipa'') = rev (n @ ''.ipa'')"
    using that lastPart_append[of "n @ ''.ipa''" "''/ipas/''"] by simp
  then have "extname (''/ipas/'' @ n @ ''.ipa'') = ''.ipa''"
    using that by (simp add: extname_def)
  then show ?thesis
    by (simp add: isFileSupported_def iOSIPARenamerSettings_def toLowerCase_def lowerChar_def)
qed

text \<open>
  C9 at two archives that fail after they have opened. In the first one the manifest
  entry is found but its compressed data do not inflate: the stream emits \<^verbatim>\<open>'error'\<close>.
  In the second one the central directory is damaged: the container emits \<^verbatim>\<open>'error'\<close>
  in answer to \<^verbatim>\<open>readEntry()\<close>. The source has no listener for either event, so the
  extraction does not resolve to \<^verbatim>\<open>null\<close>: the error is thrown, the archive is not
  counted as skipped, and the scan ends before the archives that follow.
\<close>

theorem error_event_ends_the_scan:
  "extractInfoFromIPA examplePlatform (files corruptState) ''/ipas/a-corrupt.ipa'' =
     Inl EmittedError \<and>
   extractInfoFromIPA examplePlatform (files corruptState) ''/ipas/b-damaged.ipa'' =
     Inl EmittedError \<and>
   renameFiles examplePlatform iOSIPARenamerSettings corruptState
     [''/ipas/a-corrupt.ipa'', ''/ipas/game.ipa''] = Inl EmittedError \<and>
   renameFiles examplePlatform iOSIPARenamerSettings corruptState
     [''/ipas/b-damaged.ipa'', ''/ipas/game.ipa''] = Inl EmittedError"
proof -
  have a: "extractInfoFromIPA examplePlatform (files corruptState) ''/ipas/a-corrupt.ipa'' =
             Inl EmittedError"
    by (simp add: extractInfoFromIPA_def corruptState_def corruptEntryArchive_def
        manifestPattern_def)
  have b: "extractInfoFromIPA examplePlatform (files corruptState) ''/ipas/b-damaged.ipa'' =
             Inl EmittedError"
    by (simp add: extractInfoFromIPA_def corruptState_def damagedDirectoryArchive_def
        manifestPattern_def)
  have sa: "isFileSupported iOSIPARenamerSettings (toLowerCase (extname ''/ipas/a-corrupt.ipa''))"
    using supported_ipa[of "''a-corrupt''"] by simp
  have sb: "isFileSupported iOSIPARenamerSettings (toLowerCase (extname ''/ipas/b-damaged.ipa''))"
    using supported_ipa[of "''b-damaged''"] by simp
  have pa: "processFile examplePlatform iOSIPARenamerSettings corruptState ''/ipas/a-corrupt.ipa'' =
              Inl EmittedError"
    using sa a by (simp add: processFile_def Let_def)
  have pb: "processFile examplePlatform iOSIPARenamerSettings corruptState ''/ipas/b-damaged.ipa'' =
              Inl EmittedError"
    using sb b by (simp add: processFile_def Let_def)
  show ?thesis using a b pa pb by simp
qed

section \<open>The metadata extractor\<close>

lemma jsOr_chain:
  "jsOr P (jsOr P (jsOr P a b) c) d =
     (case find (truthy P) [a, b, c, d] of Some v \<Rightarrow> v | None \<Rightarrow> d)"
  by (simp add: jsOr_def)

lemma replaceReserved_Nil_iff [simp]: "replaceReserved s = [] \<longleftrightarrow> s = []"
  by (simp add: replaceReserved_def)

lemma sequence_map_Inr:
  "(\<And>x. x \<in> set xs \<Longrightarrow> f x = Inr (g x)) \<Longrightarrow> sequence (map f xs) = Inr (map g xs)"
  by (induction xs) simp_all

lemma toString_printable: "printable v \<Longrightarrow> toString P v = Inr (showValue P v)"
proof (induction P v rule: toString.induct)
  case (5 P xs)
  have "sequence (map (\<lambda>x. if x = JUndefined \<or> x = JNull then Inr [] else toString P x) xs) =
        Inr (map (\<lambda>x. if x = JUndefined \<or> x = JNull then [] else showValue P x) xs)"
  proof (rule sequence_map_Inr)
    fix x assume x: "x \<in> set xs"
    then have "printable x" using "5.prems" by (simp add: list_all_iff)
    then show "(if x = JUndefined \<or> x = JNull then Inr [] else toString P x) =
               Inr (if x = JUndefined \<or> x = JNull then [] else showValue P x)"
      using "5.IH"[OF x] by simp
  qed
  then show ?case by simp
qed simp_all

lemma appNameOf_text:
  assumes "nameIsText P data"
  shows "appNameOf P data = Inr (specAppName P data)"
proof -
  define V where "V = jsOr P (jsOr P (jsOr P (getProp data ''CFBundleDisplayName'')
                (getProp data ''CFBundleName'')) (getProp data ''BundleDisplayName''))
                (getProp data ''UILocalizedDisplayName'')"
  have app: "appNameOf P data =
      (case V of
         JUndefined \<Rightarrow> Inr ''UnknownName''
       | JNull \<Rightarrow> Inr ''UnknownName''
       | JStr s \<Rightarrow> Inr (if replaceReserved s \<noteq> [] then replaceReserved s else ''UnknownName'')
       | _ \<Rightarrow> Inl TypeError)"
    by (simp add: appNameOf_def V_def)
  show ?thesis
  proof (cases "find (truthy P) (map (getProp data) nameKeys)")
    case None
    then have V: "V = getProp data ''UILocalizedDisplayName''"
      unfolding V_def jsOr_chain by (simp add: nameKeys_def)
    have nt: "\<not> truthy P V"
      using None unfolding V by (simp add: nameKeys_def split: if_splits)
    have "isText V \<or> V = JUndefined \<or> V = JNull"
      using assms None unfolding V by (simp add: nameIsText_def Let_def)
    then show ?thesis
      using nt by (cases V) (simp_all add: app specAppName_def None isText_def)
  next
    case (Some v)
    then have V: "V = v"
      unfolding V_def jsOr_chain by (simp add: nameKeys_def)
    have t: "truthy P v" using Some by (auto simp: find_Some_iff)
    have "isText v" using assms Some by (simp add: nameIsText_def)
    then show ?thesis
      using t by (cases v) (simp_all add: app V specAppName_def Some isText_def)
  qed
qed

lemma versionOf_spec:
  assumes "versionPrints P data"
  shows "versionOf P data = Inr (specVersion P data)"
proof (cases "find (truthy P) (map (getProp data) versionKeys)")
  case None
  then have "\<not> truthy P (rawVersionOf P data)"
    by (simp add: rawVersionOf_def jsOr_def versionKeys_def split: if_splits)
  then show ?thesis by (simp add: versionOf_def specVersion_def None)
next
  case (Some v)
  then have raw: "rawVersionOf P data = v" and t: "truthy P v"
    by (auto simp: rawVersionOf_def jsOr_def versionKeys_def split: if_splits)
  have "printable v" using assms Some by (simp add: versionPrints_def)
  then show ?thesis
    using t by (simp add: versionOf_def raw specVersion_def Some toString_printable)
qed

lemma minIOSOf_spec:
  assumes "minimumPrints P data"
  shows "minIOSOf P data =
           Inr ('' [iOS '' @
                (if truthy P (getProp data ''MinimumOSVersion'')
                 then showValue P (getProp data ''MinimumOSVersion'') else ''0.0.0'') @ '']'')"
  using assms by (simp add: minIOSOf_def minimumPrints_def jsOr_def toString_printable)

text \<open>
  C3, as amended. For every manifest that is a dictionary, whose first non-empty name
  value is a string (or whose name values are all empty, the last one being a string,
  \<^verbatim>\<open>null\<close> or absent), and whose first non-empty version value and non-empty
  \<^verbatim>\<open>MinimumOSVersion\<close> value have a string (neither is, or holds in an array, a dictionary
  with a key \<^verbatim>\<open>toString\<close>), the extractor yields: as name, the first non-empty value
  among the four keys in their order, with each reserved character replaced by a space,
  or \<^verbatim>\<open>UnknownName\<close> when all four are empty or absent; as version, the first non-empty
  value among the two version keys, formatted, or the empty string; as platform, the
  value of \<^verbatim>\<open>MinimumOSVersion\<close>, formatted, where \<^verbatim>\<open>0.0.0\<close> stands in for a value that is
  absent or empty (\<^verbatim>\<open>false\<close>, \<^verbatim>\<open>0\<close>, \<^verbatim>\<open>null\<close> and the empty string count as empty). A
  value that is not a string enters the name as the engine prints it.
\<close>

theorem metadata_of_manifest:
  assumes "nameIsText P (JObj kvs)"
    and "versionPrints P (JObj kvs)"
    and "minimumPrints P (JObj kvs)"
  shows "buildInfo P (JObj kvs) =
           Inr \<lparr>appName = specAppName P (JObj kvs),
                version = specVersion P (JObj kvs),
                minIOS = '' [iOS '' @
                  (if truthy P (getProp (JObj kvs) ''MinimumOSVersion'')
                   then showValue P (getProp (JObj kvs) ''MinimumOSVersion'') else ''0.0.0'') @
                  '']''\<rparr>"
  using appNameOf_text[OF assms(1)] versionOf_spec[OF assms(2)] minIOSOf_spec[OF assms(3)]
  by (simp add: buildInfo_def)

theorem metadata_of_manifest_witness:
  "nameIsText examplePlatform mixedManifest \<and>
   versionPrints examplePlatform mixedManifest \<and>
   minimumPrints examplePlatform mixedManifest \<and>
   buildInfo examplePlatform mixedManifest =
     Inr \<lparr>appName = ''Too l'', version = '' [v7]'', minIOS = '' [iOS 14,0]''\<rparr>"
proof -
  let ?m = "JObj [(''CFBundleName'', JStr ''Too/l''),
                  (''CFBundleShortVersionString'', JHost 0),
                  (''CFBundleVersion'', JHost 7),
                  (''MinimumOSVersion'', JArr [JHost 14, JHost 0])] :: nat jsvalue"
  have h1: "nameIsText examplePlatform ?m"
    by (simp add: nameIsText_def nameKeys_def isText_def)
  have h2: "versionPrints examplePlatform ?m"
    by (simp add: versionPrints_def versionKeys_def examplePlatform_def)
  have h3: "minimumPrints examplePlatform ?m"
    by (simp add: minimumPrints_def)
  show ?thesis
    using h1 h2 h3 metadata_of_manifest[OF h1 h2 h3]
    by (simp add: mixedManifest_def specAppName_def specVersion_def
        nameKeys_def versionKeys_def replaceReserved_def reserved_def examplePlatform_def)
qed

text \<open>
  Where the statement as written fails: \<^verbatim>\<open>true\<close> under a name key makes the extraction
  throw, where the statement has the name \<^verbatim>\<open>true\<close>; and a \<^verbatim>\<open>MinimumOSVersion\<close> that is
  present but \<^verbatim>\<open>false\<close> is replaced by the default.
\<close>

theorem metadata_not_as_claimed:
  "buildInfo examplePlatform trueNameManifest = Inl TypeError \<and>
   specAppName examplePlatform trueNameManifest = ''true'' \<and>
   buildInfo examplePlatform falseMinimumManifest =
     Inr \<lparr>appName = ''UnknownName'', version = [], minIOS = '' [iOS 0.0.0]''\<rparr> \<and>
   specMinPlatform examplePlatform falseMinimumManifest = '' [iOS false]''"
  by (simp add: info_defs trueNameManifest_def falseMinimumManifest_def specAppName_def
      specMinPlatform_def nameKeys_def replaceReserved_def reserved_def)

text \<open>
  C5 at a manifest whose display name is the number 42: building the metadata throws a
  \<^verbatim>\<open>TypeError\<close>. Nothing catches it, so the extraction does not resolve and the scan
  ends there, before the archive that follows.
\<close>

theorem number_as_name_raises:
  "buildInfo examplePlatform numericNameManifest = Inl TypeError \<and>
   extractInfoFromIPA examplePlatform (files oddState) ''/ipas/a-odd.ipa'' = Inl TypeError \<and>
   renameFiles examplePlatform iOSIPARenamerSettings oddState
     [''/ipas/a-odd.ipa'', ''/ipas/game.ipa''] = Inl TypeError"
proof -
  have b: "buildInfo examplePlatform numericNameManifest = Inl TypeError"
    by (simp add: numericNameManifest_def info_defs examplePlatform_def)
  have p: "parseManifest examplePlatform ''<plist>42</plist>'' = Inr numericNameManifest"
    by (simp add: parseManifest_def examplePlatform_def)
  have e: "extractInfoFromIPA examplePlatform (files oddState) ''/ipas/a-odd.ipa'' = Inl TypeError"
    by (simp add: extractInfoFromIPA_def oddState_def numericNameArchive_def manifestPattern_def
        p b)
  have s: "isFileSupported iOSIPARenamerSettings (toLowerCase (extname ''/ipas/a-odd.ipa''))"
    using supported_ipa[of "''a-odd''"] by simp
  have "processFile examplePlatform iOSIPARenamerSettings oddState ''/ipas/a-odd.ipa'' =
          Inl TypeError"
    using s e by (simp add: processFile_def Let_def)
  then show ?thesis using b e by simp
qed

section \<open>Directories of walk paths\<close>

lemma dirname_root: "s \<noteq> [] \<Longrightarrow> CHR ''/'' \<notin> set s \<Longrightarrow> dirname (CHR ''/'' # s) = ''/''"
proof -
  assume s: "s \<noteq> []" "CHR ''/'' \<notin> set s"
  have "\<not> isSep (hd (rev s))" using s by (simp add: isSep_def hd_rev last_not)
  then have d: "dropWhile isSep (rev s) = rev s" using s(1) by (cases "rev s") auto
  have "dropWhile (\<lambda>c. \<not> isSep c) (rev s) = []"
    using s(2) by (auto simp: isSep_def)
  then show ?thesis by (simp add: dirname_def d isSep_def)
qed

lemma dirname_append:
  assumes "d \<noteq> []" and "last d \<noteq> CHR ''/''" and "s \<noteq> []" and "CHR ''/'' \<notin> set s"
  shows "dirname (d @ CHR ''/'' # s) = d"
proof -
  obtain x d' where d: "d = x # d'" using assms(1) by (cases d) auto
  have "\<not> isSep (hd (rev s))" using assms(3,4) by (simp add: isSep_def hd_rev last_not)
  then have dw: "dropWhile isSep (rev s @ CHR ''/'' # rev d') = rev s @ CHR ''/'' # rev d'"
    using assms(3) by (cases "rev s") auto
  have r: "dropWhile (\<lambda>c. \<not> isSep c) (rev s @ CHR ''/'' # rev d') = CHR ''/'' # rev d'"
    using assms(4) by (auto simp: dropWhile_append3 isSep_def)
  have notroot: "\<not> (isSep x \<and> d' = [])" using assms(2) d by (auto simp: isSep_def)
  show ?thesis
    using notroot by (auto simp: dirname_def d dw r Let_def)
qed

lemma absPath_snoc: "absPath (segs @ [n]) = absPath segs @ CHR ''/'' # n"
  by (simp add: absPath_def)

lemma absPath_last:
  "segs \<noteq> [] \<Longrightarrow> list_all isName segs \<Longrightarrow> absPath segs \<noteq> [] \<and> last (absPath segs) \<noteq> CHR ''/''"
  by (cases segs rule: rev_cases) (auto simp: absPath_snoc isName_def last_not)

lemma dirname_absPath:
  assumes "list_all isName segs" and "isName n"
  shows "dirname (absPath (segs @ [n])) = (if segs = [] then ''/'' else absPath segs)"
proof (cases "segs = []")
  case True
  then show ?thesis using assms(2) by (simp add: absPath_def dirname_root isName_def)
next
  case False
  then show ?thesis
    using absPath_last[OF False assms(1)] assms(2)
    by (simp add: absPath_snoc dirname_append isName_def)
qed

lemma splitSep_absPath:
  "CHR ''/'' \<notin> set s \<Longrightarrow> list_all isName segs \<Longrightarrow> splitSep (s @ absPath segs) = s # segs"
proof (induction segs arbitrary: s)
  case Nil
  then show ?case by (simp add: absPath_def splitSep_nosep)
next
  case (Cons a segs)
  have "splitSep (s @ CHR ''/'' # (a @ absPath segs)) = s # splitSep (a @ absPath segs)"
    by (rule splitSep_append_sep[OF Cons.prems(1)])
  then show ?case using Cons by (simp add: absPath_def isName_def)
qed

lemma foldl_names:
  "list_all isName segs \<Longrightarrow> foldl (normalizeStep a) acc segs = acc @ segs"
  by (induction segs arbitrary: acc) (simp_all add: normalizeStep_name)

lemma joinWith_absPath:
  "segs \<noteq> [] \<Longrightarrow> CHR ''/'' # joinWith ''/'' segs = absPath segs"
  by (induction "''/''" segs rule: joinWith.induct) (simp_all add: absPath_def)

lemma normalizeString_absPath:
  assumes "list_all isName segs" and "X = [] \<or> X = ''/''"
  shows "normalizeString (X @ absPath segs) a = joinWith ''/'' segs"
proof -
  have "splitSep (X @ absPath segs) = (if X = [] then [[]] else [[], []]) @ segs"
    using assms(2) splitSep_absPath[OF _ assms(1), of "[]"] by (auto simp: isSep_def)
  then show ?thesis
    by (simp add: normalizeString_def foldl_names[OF assms(1)] normalizeStep_def)
qed

lemma joinWith_Cons_nonempty: "x \<noteq> [] \<Longrightarrow> joinWith sep (x # xs) \<noteq> []"
  by (cases xs) auto

lemma joinWith_names_nonempty:
  "segs \<noteq> [] \<Longrightarrow> list_all isName segs \<Longrightarrow> joinWith ''/'' segs \<noteq> []"
  by (cases segs) (auto simp: isName_def joinWith_Cons_nonempty)

lemma normalize_absPath:
  assumes "segs \<noteq> []" and "list_all isName segs" and "X = [] \<or> X = ''/''"
  shows "normalize_path (X @ absPath segs) = absPath segs"
proof -
  let ?p = "X @ absPath segs"
  obtain t where t: "absPath segs = CHR ''/'' # t"
    using assms(1) by (cases segs) (auto simp: absPath_def)
  have hd: "isSep (hd ?p)" using assms(3) t by (auto simp: isSep_def)
  have last: "\<not> isSep (last ?p)"
    using absPath_last[OF assms(1,2)] by (simp add: isSep_def)
  have q: "normalizeString ?p (\<not> isSep (hd ?p)) = joinWith ''/'' segs"
    by (rule normalizeString_absPath[OF assms(2,3)])
  have "normalize_path ?p = (if isSep (hd ?p) then ''/'' else []) @ normalizeString ?p (\<not> isSep (hd ?p))"
    by (rule normalize_path_plain) (use t last q joinWith_names_nonempty[OF assms(1,2)] in auto)
  then show ?thesis using hd q joinWith_absPath[OF assms(1)] by simp
qed

lemma join_dir:
  assumes "list_all isName segs" and "isName n"
  shows "join [if segs = [] then ''/'' else absPath segs, n] = absPath (segs @ [n])"
proof -
  have n: "n \<noteq> []" using assms(2) by (simp add: isName_def)
  have all: "list_all isName (segs @ [n])" using assms by simp
  show ?thesis
  proof (cases "segs = []")
    case True
    have "join [''/'', n] = normalize_path (''/'' @ absPath [n])"
      using n by (simp add: join_def absPath_def)
    also have "\<dots> = absPath [n]"
      by (rule normalize_absPath) (use assms(2) in auto)
    finally show ?thesis using True by simp
  next
    case False
    then have ne: "absPath segs \<noteq> []" using absPath_last[OF False assms(1)] by simp
    have "join [absPath segs, n] = normalize_path ([] @ absPath (segs @ [n]))"
      using n ne by (simp add: join_def absPath_snoc)
    also have "\<dots> = absPath (segs @ [n])"
      by (rule normalize_absPath) (use all in auto)
    finally show ?thesis using False by simp
  qed
qed

lemma plan_absPath:
  assumes "list_all isName segs" and "isName n"
    and "getNewFilePath S i fileExt (absPath (segs @ [n])) = Some q"
  shows "q = absPath (segs @ [safeNewName S i fileExt (absPath (segs @ [n]))])"
  using assms(3) join_dir[OF assms(1) safeNewName_isName]
  by (auto simp: getNewFilePath_def Let_def dirname_absPath[OF assms(1,2)] split: if_splits)

text \<open>
  Without the original name in front, a second plan for a renamed file is \<^verbatim>\<open>null\<close>:
  the candidate no longer depends on the name of the file.
\<close>

lemma second_plan_none_without_original_name:
  assumes "\<not> INCLUDE_ORIGINAL_NAME S" and "list_all isName segs" and "isName n"
    and "getNewFilePath S i fileExt (absPath (segs @ [n])) = Some q"
  shows "getNewFilePath S i fileExt q = None"
proof -
  define N where "N = safeNewName S i fileExt (absPath (segs @ [n]))"
  have q: "q = absPath (segs @ [N])"
    unfolding N_def by (rule plan_absPath[OF assms(2,3,4)])
  have N: "isName N" unfolding N_def by (rule safeNewName_isName)
  have same: "safeNewName S i fileExt q = N"
    using assms(1) by (simp add: N_def safeNewName_def)
  have "join [dirname q, N] = q"
    unfolding q dirname_absPath[OF assms(2) N] by (rule join_dir[OF assms(2) N])
  then show ?thesis by (simp add: getNewFilePath_def same)
qed

lemma extname_ipa:
  assumes "lastPart q = rev (Y @ ''.ipa'')" and "Y \<noteq> []"
  shows "extname q = ''.ipa''"
  using assms by (simp add: extname_def)

section \<open>The end-to-end scenario\<close>

lemma lastPart_game: "lastPart (d @ ''/game.ipa'') = rev ''game.ipa''"
  using lastPart_append[of "''game.ipa''" "d @ ''/''"] by simp

lemma safeNewName_game:
  "safeNewName iOSIPARenamerSettings exampleInfo ''.ipa'' (d @ ''/game.ipa'') = renamedOnce"
proof -
  have e: "extname (d @ ''/game.ipa'') = ''.ipa''"
    by (simp add: extname_def lastPart_game)
  have b: "basename (d @ ''/game.ipa'') ''.ipa'' = ''game''"
    by (simp add: basename_def lastPart_game)
  show ?thesis
    by (simp add: safeNewName_def e b exampleInfo_def renamedOnce_def iOSIPARenamerSettings_def
        replaceReserved_def reserved_def arrow_def en_dash_def)
qed

text \<open>
  C2, as amended. For the manifest with display name \<^verbatim>\<open>My App\<close>, short version \<^verbatim>\<open>2.1\<close> and
  minimum version \<^verbatim>\<open>14.0\<close>, the file \<^verbatim>\<open>game.ipa\<close> in any directory and
  \<^verbatim>\<open>INCLUDE_ORIGINAL_NAME\<close> set, the planner returns a target whose base name is
  \<open>renamedOnce\<close>: the version part begins with a space, so one space stands between the
  dash and \<^verbatim>\<open>[v2.1]\<close>.
\<close>

theorem end_to_end_name:
  "buildInfo P exampleManifest = Inr exampleInfo \<and>
   getNewFilePath iOSIPARenamerSettings exampleInfo ''.ipa'' (d @ ''/game.ipa'') =
     Some (join [dirname (d @ ''/game.ipa''), renamedOnce]) \<and>
   basename (join [dirname (d @ ''/game.ipa''), renamedOnce]) [] = renamedOnce"
proof -
  have m: "buildInfo P exampleManifest = Inr exampleInfo"
    by (simp add: exampleManifest_def exampleInfo_def info_defs replaceReserved_def reserved_def)
  have incl: "INCLUDE_ORIGINAL_NAME iOSIPARenamerSettings"
    by (simp add: iOSIPARenamerSettings_def)
  have p: "getNewFilePath iOSIPARenamerSettings exampleInfo ''.ipa'' (d @ ''/game.ipa'') =
             Some (join [dirname (d @ ''/game.ipa''), renamedOnce])"
    using never_none[OF incl, of exampleInfo "''.ipa''" "d @ ''/game.ipa''"]
    by (simp only: safeNewName_game)
  have "isName renamedOnce"
    using safeNewName_isName[of iOSIPARenamerSettings exampleInfo "''.ipa''" "d @ ''/game.ipa''"]
    by (simp only: safeNewName_game)
  then have "basename (join [dirname (d @ ''/game.ipa''), renamedOnce]) [] = renamedOnce"
    by (rule basename_join)
  then show ?thesis using m p by simp
qed

text \<open>
  The name in the specification's scenario has no space after the dash; the planner's
  name has one.
\<close>

theorem end_to_end_name_not_as_claimed:
  "buildInfo examplePlatform exampleManifest = Inr exampleInfo \<and>
   getNewFilePath iOSIPARenamerSettings exampleInfo ''.ipa'' ''/ipas/game.ipa'' =
     Some (''/ipas/'' @ renamedOnce) \<and>
   basename (''/ipas/'' @ renamedOnce) [] = renamedOnce \<and>
   renamedOnce \<noteq> claimedName"
proof -
  have m: "buildInfo examplePlatform exampleManifest = Inr exampleInfo"
    by (simp add: exampleManifest_def exampleInfo_def info_defs replaceReserved_def reserved_def)
  have p: "getNewFilePath iOSIPARenamerSettings exampleInfo ''.ipa'' ''/ipas/game.ipa'' =
             Some (''/ipas/'' @ renamedOnce)"
    by (simp add: exampleInfo_def renamedOnce_def plan_defs path_defs)
  have b: "basename (''/ipas/'' @ renamedOnce) [] = renamedOnce"
    by (simp add: renamedOnce_def arrow_def en_dash_def basename_def lastPart_def isSep_def)
  have n: "renamedOnce \<noteq> claimedName"
    by (simp add: renamedOnce_def claimedName_def arrow_def en_dash_def)
  show ?thesis by (rule conjI m p b n)+
qed

section \<open>Running twice\<close>

lemma supported_lower: "isFileSupported iOSIPARenamerSettings ''.ipa''"
  by (simp add: isFileSupported_def iOSIPARenamerSettings_def)

lemma extract_example:
  "archives p = Some exampleArchive \<Longrightarrow>
   extractInfoFromIPA examplePlatform archives p = Inr (Some exampleInfo)"
  by (simp add: extractInfoFromIPA_def exampleArchive_def manifestPattern_def parseManifest_def
      examplePlatform_def exampleManifest_def exampleInfo_def info_defs replaceReserved_def
      reserved_def)

text \<open>
  C1 at the source's own settings. The first run renames \<^verbatim>\<open>game.ipa\<close>; the second run,
  on the renamed file, does not end in \<^verbatim>\<open>Already renamed\<close> with the file skipped: it
  renames the file again, to a name that holds the metadata twice.
\<close>

theorem second_run_renames_again:
  "renameFiles examplePlatform iOSIPARenamerSettings firstRun [''/ipas/game.ipa''] =
     Inr afterFirstRun \<and>
   files secondRun = files afterFirstRun \<and>
   renameFiles examplePlatform iOSIPARenamerSettings secondRun [''/ipas/'' @ renamedOnce] =
     Inr afterSecondRun"
proof -
  have e1: "toLowerCase (extname ''/ipas/game.ipa'') = ''.ipa''"
    by (simp add: toLowerCase_def lowerChar_def extname_def lastPart_def isSep_def)
  have e2: "toLowerCase (extname (''/ipas/'' @ renamedOnce)) = ''.ipa''"
    by (simp add: toLowerCase_def lowerChar_def extname_def lastPart_def isSep_def
        renamedOnce_def arrow_def en_dash_def)
  have p1: "getNewFilePath iOSIPARenamerSettings exampleInfo ''.ipa'' ''/ipas/game.ipa'' =
              Some (''/ipas/'' @ renamedOnce)"
    by (simp add: exampleInfo_def renamedOnce_def plan_defs path_defs)
  have p2: "getNewFilePath iOSIPARenamerSettings exampleInfo ''.ipa'' (''/ipas/'' @ renamedOnce) =
              Some (''/ipas/'' @ renamedTwice)"
    by (simp add: exampleInfo_def renamedOnce_def renamedTwice_def plan_defs path_defs)
  have ne1: "''/ipas/game.ipa'' \<noteq> ''/ipas/'' @ renamedOnce"
    by (simp add: renamedOnce_def)
  have ne2: "''/ipas/'' @ renamedOnce \<noteq> ''/ipas/'' @ renamedTwice"
    by (simp add: renamedOnce_def renamedTwice_def arrow_def en_dash_def)
  have x1: "extractInfoFromIPA examplePlatform (files firstRun) ''/ipas/game.ipa'' =
              Inr (Some exampleInfo)"
    by (rule extract_example) (simp add: firstRun_def)
  have x2: "extractInfoFromIPA examplePlatform (files secondRun) (''/ipas/'' @ renamedOnce) =
              Inr (Some exampleInfo)"
    by (rule extract_example) (simp add: secondRun_def)
  have s1: "safeRenameFile examplePlatform firstRun ''/ipas/game.ipa'' (''/ipas/'' @ renamedOnce) =
              afterFirstRun"
    using ne1 by (simp add: safeRenameFile_def firstRun_def afterFirstRun_def examplePlatform_def)
  have s2: "safeRenameFile examplePlatform secondRun (''/ipas/'' @ renamedOnce)
              (''/ipas/'' @ renamedTwice) = afterSecondRun"
    using ne2 by (simp add: safeRenameFile_def secondRun_def afterSecondRun_def examplePlatform_def)
  have r1: "processFile examplePlatform iOSIPARenamerSettings firstRun ''/ipas/game.ipa'' =
              Inr afterFirstRun"
    using x1 p1 s1 by (simp add: processFile_def Let_def e1 supported_lower)
  have r2: "processFile examplePlatform iOSIPARenamerSettings secondRun (''/ipas/'' @ renamedOnce) =
              Inr afterSecondRun"
    using e2 x2 p2 s2 by (simp add: processFile_def Let_def supported_lower)
  show ?thesis using r1 r2 by (simp add: secondRun_def afterFirstRun_def)
qed

section \<open>The target of a plan\<close>

text \<open>
  C6, as amended. For every path of the walk whose extension is supported (with the
  source's list of extensions, \<^verbatim>\<open>.ipa\<close> in any letter case) and every plan the planner
  returns for it as \<^verbatim>\<open>#renameFiles\<close> calls it, the target lies in the directory of the
  original, its extension is the original extension in lower case, and it differs from
  the original path.
\<close>

theorem plan_is_sibling_with_lowercase_extension:
  assumes "list_all isName segs" and "isName n"
    and "SUPPORTED_EXTENSIONS S = [''.ipa'']"
    and "isFileSupported S (toLowerCase (extname (absPath (segs @ [n]))))"
    and "getNewFilePath S i (toLowerCase (extname (absPath (segs @ [n])))) (absPath (segs @ [n]))
           = Some q"
  shows "dirname q = dirname (absPath (segs @ [n])) \<and>
         extname q = toLowerCase (extname (absPath (segs @ [n]))) \<and>
         q \<noteq> absPath (segs @ [n])"
proof -
  let ?p = "absPath (segs @ [n])"
  define N where "N = safeNewName S i ''.ipa'' ?p"
  have ext: "toLowerCase (extname ?p) = ''.ipa''"
    using assms(3,4) by (simp add: isFileSupported_def)
  have plan: "getNewFilePath S i ''.ipa'' ?p = Some q" using assms(5) ext by simp
  have q: "q = absPath (segs @ [N])" unfolding N_def by (rule plan_absPath[OF assms(1,2) plan])
  have N: "isName N" unfolding N_def by (rule safeNewName_isName)
  have dir: "dirname q = dirname ?p"
    unfolding q by (simp add: dirname_absPath[OF assms(1) N] dirname_absPath[OF assms(1,2)])
  have "N = replaceReserved
             ((if INCLUDE_ORIGINAL_NAME S then basename ?p (extname ?p) @ '' '' @ arrow @ '' ''
               else []) @ appName i @ '' '' @ en_dash @ version i @ minIOS i) @ ''.ipa''"
    by (simp add: N_def safeNewName_def Let_def replaceReserved_def reserved_def)
  moreover have "CHR '' '' \<in> set (replaceReserved
             ((if INCLUDE_ORIGINAL_NAME S then basename ?p (extname ?p) @ '' '' @ arrow @ '' ''
               else []) @ appName i @ '' '' @ en_dash @ version i @ minIOS i))"
    by (simp add: replaceReserved_space)
  ultimately obtain Y where Y: "N = Y @ ''.ipa''" "CHR '' '' \<in> set Y"
    by blast
  have "lastPart q = rev N"
    unfolding q absPath_snoc using N lastPart_append[of N "absPath segs @ ''/''"]
    by (simp add: isName_def)
  then have "extname q = ''.ipa''"
    using Y by (intro extname_ipa[of q Y]) auto
  moreover have "q \<noteq> ?p" using plan by (auto simp: getNewFilePath_def Let_def split: if_splits)
  ultimately show ?thesis using dir ext by simp
qed

theorem plan_is_sibling_with_lowercase_extension_witness:
  "list_all isName [''ipas''] \<and> isName ''GAME.IPA'' \<and>
   SUPPORTED_EXTENSIONS iOSIPARenamerSettings = [''.ipa''] \<and>
   isFileSupported iOSIPARenamerSettings (toLowerCase (extname ''/ipas/GAME.IPA'')) \<and>
   getNewFilePath iOSIPARenamerSettings exampleInfo (toLowerCase (extname ''/ipas/GAME.IPA''))
     ''/ipas/GAME.IPA'' = Some upperTarget \<and>
   dirname upperTarget = dirname ''/ipas/GAME.IPA'' \<and>
   extname upperTarget = toLowerCase (extname ''/ipas/GAME.IPA'') \<and>
   upperTarget \<noteq> ''/ipas/GAME.IPA''"
proof -
  have p: "absPath ([''ipas''] @ [''GAME.IPA'']) = ''/ipas/GAME.IPA''"
    by (simp add: absPath_def)
  have e: "toLowerCase (extname ''/ipas/GAME.IPA'') = ''.ipa''"
    by (simp add: toLowerCase_def lowerChar_def extname_def lastPart_def isSep_def)
  have h1: "list_all isName [''ipas'']" by (simp add: isName_def)
  have h2: "isName ''GAME.IPA''" by (simp add: isName_def)
  have h3: "SUPPORTED_EXTENSIONS iOSIPARenamerSettings = [''.ipa'']"
    by (simp add: iOSIPARenamerSettings_def)
  have h4: "isFileSupported iOSIPARenamerSettings
              (toLowerCase (extname (absPath ([''ipas''] @ [''GAME.IPA'']))))"
    unfolding p e by (rule supported_lower)
  have h5: "getNewFilePath iOSIPARenamerSettings exampleInfo
              (toLowerCase (extname (absPath ([''ipas''] @ [''GAME.IPA'']))))
              (absPath ([''ipas''] @ [''GAME.IPA''])) = Some upperTarget"
    unfolding p e by (simp add: exampleInfo_def upperTarget_def plan_defs path_defs)
  note c = plan_is_sibling_with_lowercase_extension[OF h1 h2 h3 h4 h5]
  show ?thesis using h1 h2 h3 h4 h5 c unfolding p by (simp only: simp_thms)
qed

text \<open>An extension in upper case is not preserved: the target ends in \<^verbatim>\<open>.ipa\<close>.\<close>

theorem extension_case_not_preserved:
  "isFileSupported iOSIPARenamerSettings (toLowerCase (extname ''/ipas/GAME.IPA'')) \<and>
   getNewFilePath iOSIPARenamerSettings exampleInfo (toLowerCase (extname ''/ipas/GAME.IPA''))
     ''/ipas/GAME.IPA'' = Some upperTarget \<and>
   extname upperTarget = ''.ipa'' \<and>
   extname ''/ipas/GAME.IPA'' = ''.IPA''"
proof -
  have e: "extname ''/ipas/GAME.IPA'' = ''.IPA''"
    by (simp add: extname_def lastPart_def isSep_def)
  have l: "toLowerCase ''.IPA'' = ''.ipa''"
    by (simp add: toLowerCase_def lowerChar_def)
  have p: "getNewFilePath iOSIPARenamerSettings exampleInfo ''.ipa'' ''/ipas/GAME.IPA'' =
             Some upperTarget"
    by (simp add: exampleInfo_def upperTarget_def plan_defs path_defs)
  have u: "extname upperTarget = ''.ipa''"
    by (simp add: upperTarget_def arrow_def en_dash_def extname_def lastPart_def isSep_def)
  show ?thesis unfolding e l using supported_lower p u by simp
qed

section \<open>The planner and the scan under \<^verbatim>\<open>INCLUDE_ORIGINAL_NAME\<close>\<close>




end
